theory Spec2Isabelle
  imports Complex_Main "HOL-Library.Word" "HOL-Library.Multiset"
begin

unbundle bit_operations_syntax

section \<open>The inverted file of the retrieval core (src/retrieval/inverted_file.h)\<close>

text \<open>
  The class template \<open>InvertedFile<N>\<close> is embedded with the template parameter \<open>N\<close> as an
  explicit argument of the operations that use it.

  \<^bold>\<open>Arithmetic.\<close> The C++ types \<open>float\<close> and \<open>double\<close> are the type variables \<open>'f\<close> and \<open>'d\<close>.
  Their operators \<open>+\<close>, \<open>*\<close>, \<open>/\<close>, \<open><\<close>, \<open>0\<close> and \<open>1\<close> are the operations of the purely
  syntactic classes \<open>zero\<close>, \<open>one\<close>, \<open>plus\<close>, \<open>times\<close>, \<open>inverse\<close> and \<open>ord\<close>, which carry no
  axioms: no associativity, no order law, nothing of real arithmetic is used unless a theorem
  names it as a hypothesis. The library functions and conversions (\<open>std::sqrt\<close>, \<open>std::log\<close>,
  \<open>static_cast\<close>) and the voting-weight functor of \<open>retrieval/utils.h\<close> are the fields of the
  record \<open>arith\<close>. Every theorem below therefore holds for IEEE-754 arithmetic as well as
  for the exact arithmetic of \<open>real\<close> that the concrete examples use.
\<close>

record ('f, 'd) arith =
  f_sqrt :: "'f \<Rightarrow> 'f"                       \<comment> \<open>\<open>std::sqrt(float)\<close>\<close>
  f_of_int :: "int \<Rightarrow> 'f"                   \<comment> \<open>\<open>static_cast<float>(int)\<close>\<close>
  f_of_d :: "'d \<Rightarrow> 'f"                      \<comment> \<open>narrowing \<open>double\<close> to \<open>float\<close>\<close>
  d_of_f :: "'f \<Rightarrow> 'd"                      \<comment> \<open>widening \<open>float\<close> to \<open>double\<close>\<close>
  d_of_int :: "int \<Rightarrow> 'd"                   \<comment> \<open>\<open>static_cast<double>(int)\<close>\<close>
  d_of_nat :: "nat \<Rightarrow> 'd"                   \<comment> \<open>\<open>static_cast<double>(size_t)\<close>\<close>
  d_log :: "'d \<Rightarrow> 'd"                       \<comment> \<open>\<open>std::log(double)\<close>\<close>
  hamming_dist_weight_functor :: "nat \<Rightarrow> 'f"  \<comment> \<open>\<open>HammingDistWeightFunctor<N>::operator()\<close>\<close>

subsection \<open>Data\<close>

text \<open>
  \<open>InvertedFileEntry<N>\<close> is declared in \<open>retrieval/inverted_file_entry.h\<close>; the file uses its
  members \<open>image_id\<close> (an \<open>int\<close>) and \<open>descriptor\<close> (a \<open>std::bitset<N>\<close>, here the list of its
  \<open>N\<close> bits, bit \<open>i\<close> at position \<open>i\<close>).
\<close>

record InvertedFileEntry =
  image_id :: int
  descriptor :: "bool list"

record 'f InvertedFile =
  status :: "8 word"
  idf_weight :: 'f
  entries :: "InvertedFileEntry list"
  thresholds :: "'f list"

text \<open>The enumeration \<open>Status\<close>.\<close>

definition UNUSABLE :: "8 word" where "UNUSABLE = 0x00"
definition HAS_HAMMING_EMBEDDING :: "8 word" where "HAS_HAMMING_EMBEDDING = 0x01"
definition ENTRIES_SORTED :: "8 word" where "ENTRIES_SORTED = 0x02"
definition USABLE :: "8 word" where "USABLE = 0x03"

datatype error = CheckFailed | OutOfRange | StreamTruncated

text \<open>The constructor: status \<open>UNUSABLE\<close>, weight \<open>0.0f\<close>, no entries, thresholds zero.\<close>

definition InvertedFile_new :: "nat \<Rightarrow> ('f::zero) InvertedFile" where
  "InvertedFile_new N =
     \<lparr>status = UNUSABLE, idf_weight = 0, entries = [], thresholds = replicate N 0\<rparr>"

definition NumEntries :: "'f InvertedFile \<Rightarrow> nat" where
  "NumEntries F = length (entries F)"

text \<open>The three status queries convert \<open>status_ & mask\<close> to \<open>bool\<close>: true iff non-zero.\<close>

definition HasHammingEmbedding :: "'f InvertedFile \<Rightarrow> bool" where
  "HasHammingEmbedding F \<longleftrightarrow> status F AND HAS_HAMMING_EMBEDDING \<noteq> 0"

definition EntriesSorted :: "'f InvertedFile \<Rightarrow> bool" where
  "EntriesSorted F \<longleftrightarrow> status F AND ENTRIES_SORTED \<noteq> 0"

definition IsUsable :: "'f InvertedFile \<Rightarrow> bool" where
  "IsUsable F \<longleftrightarrow> status F AND USABLE \<noteq> 0"

text \<open>\<open>ConvertToBinaryDescriptor\<close>: bit \<open>i\<close> is \<open>descriptor[i] > thresholds_[i]\<close>, for \<open>i\<close> from
  \<open>0\<close> to \<open>N - 1\<close>.\<close>

definition ConvertToBinaryDescriptor ::
  "nat \<Rightarrow> ('f::ord) InvertedFile \<Rightarrow> 'f list \<Rightarrow> bool list" where
  "ConvertToBinaryDescriptor N F desc = map (\<lambda>i. desc ! i > thresholds F ! i) [0..<N]"

text \<open>\<open>AddEntry\<close>: \<open>CHECK_GE(image_id, 0)\<close> aborts on a negative identifier.\<close>

definition AddEntry ::
  "nat \<Rightarrow> ('f::ord) InvertedFile \<Rightarrow> int \<Rightarrow> 'f list \<Rightarrow> error + 'f InvertedFile" where
  "AddEntry N F image_id' desc =
     (if \<not> image_id' \<ge> 0 then Inl CheckFailed
      else
        let entry = \<lparr>image_id = image_id', descriptor = ConvertToBinaryDescriptor N F desc\<rparr>
        in Inr (F\<lparr>entries := entries F @ [entry],
                  status := status F AND NOT ENTRIES_SORTED\<rparr>))"

definition ClearEntries :: "'f InvertedFile \<Rightarrow> 'f InvertedFile" where
  "ClearEntries F = F\<lparr>entries := [], status := status F AND NOT ENTRIES_SORTED\<rparr>"

definition Reset :: "nat \<Rightarrow> ('f::zero) InvertedFile \<Rightarrow> 'f InvertedFile" where
  "Reset N F = F\<lparr>status := UNUSABLE, idf_weight := 0, entries := [],
                 thresholds := replicate N 0\<rparr>"

text \<open>\<open>ComputeIDFWeight\<close> and \<open>GetImageIds\<close>. The \<open>std::unordered_set<int>\<close> is a set of
  integers; \<open>GetImageIds\<close> inserts into the set it is given.\<close>

definition GetImageIds :: "'f InvertedFile \<Rightarrow> int set \<Rightarrow> int set" where
  "GetImageIds F ids = foldl (\<lambda>s entry. insert (image_id entry) s) ids (entries F)"

definition ComputeIDFWeight ::
  "('f, 'd::{one,plus,inverse}) arith \<Rightarrow> int \<Rightarrow> 'f InvertedFile \<Rightarrow> 'f InvertedFile" where
  "ComputeIDFWeight ops num_total_images F =
     (if entries F = [] then F
      else
        let image_ids = GetImageIds F {}
        in F\<lparr>idf_weight :=
               f_of_d ops (d_log ops (1 + d_of_int ops num_total_images
                                           / d_of_nat ops (card image_ids)))\<rparr>)"

definition IDFWeight :: "'f InvertedFile \<Rightarrow> 'f" where
  "IDFWeight F = idf_weight F"

subsection \<open>Learning the thresholds\<close>

text \<open>
  Modelled from the spec: \<open>Median\<close> of \<open>util/math.h\<close>, which is not among the sources. The
  specification fixes it as the median of the values, "lower middle for even M": the element
  at position \<open>(M - 1) div 2\<close> of the values in ascending order. It is only applied to
  sequences of at least two values.
\<close>

fun insert_ascending :: "('f::ord) \<Rightarrow> 'f list \<Rightarrow> 'f list" where
  "insert_ascending x [] = [x]"
| "insert_ascending x (y # ys) = (if x \<le> y then x # y # ys else y # insert_ascending x ys)"

definition ascending :: "('f::ord) list \<Rightarrow> 'f list" where
  "ascending xs = foldr insert_ascending xs []"

definition Median :: "('f::ord) list \<Rightarrow> 'f" where
  "Median elems = ascending elems ! ((length elems - 1) div 2)"

text \<open>
  \<open>ComputeHammingEmbedding\<close>. The matrix is the list of its rows. The row count, an
  \<open>Eigen::Index\<close>, is narrowed by \<open>static_cast<int>\<close>: the low 32 bits, read as two's
  complement.
\<close>

definition ComputeHammingEmbedding ::
  "nat \<Rightarrow> ('f::ord) InvertedFile \<Rightarrow> 'f list list \<Rightarrow> 'f InvertedFile" where
  "ComputeHammingEmbedding N F descriptors =
     (let num_descriptors = sint (word_of_nat (length descriptors) :: 32 word)
      in if num_descriptors < 2 then F
         else
           F\<lparr>thresholds :=
               foldl (\<lambda>ths n. ths[n := Median (map (\<lambda>i. descriptors ! i ! n)
                                                     [0..<nat num_descriptors])])
                     (thresholds F) [0..<N],
             status := status F OR HAS_HAMMING_EMBEDDING\<rparr>)"

subsection \<open>Scoring\<close>

text \<open>\<open>std::bitset\<close>: \<open>operator^\<close> and \<open>count()\<close>.\<close>

definition bitset_xor :: "bool list \<Rightarrow> bool list \<Rightarrow> bool list" where
  "bitset_xor a b = map2 (\<lambda>x y. x \<noteq> y) a b"

definition bitset_count :: "bool list \<Rightarrow> nat" where
  "bitset_count a = length (filter (\<lambda>b. b) a)"

text \<open>
  An \<open>ImageScore\<close> (\<open>retrieval/utils.h\<close>) is the pair of its members \<open>image_id\<close> and \<open>score\<close>.
  The state of the loop of \<open>ScoreFeature\<close> is the current \<open>image_score\<close>, the counter
  \<open>num_image_votes\<close> and the output vector. The counter is an \<open>int\<close>: 32 bits, read as two's
  complement by \<open>sint\<close>. C++ leaves the overflow of \<open>num_image_votes += 1\<close> undefined; the
  model lets the counter wrap, as the addition of the hardware does.

  \<open>push_votes\<close> is the block that occurs twice in the source: if there are votes, divide the
  score by the square root of their number, multiply by the squared weight and append.
\<close>

type_synonym 'f ImageScore = "int \<times> 'f"

definition push_votes ::
  "('f::{times,inverse}, 'd) arith \<Rightarrow> 'f \<Rightarrow> 'f ImageScore \<Rightarrow> 32 word \<Rightarrow> 'f ImageScore list
     \<Rightarrow> 'f ImageScore list" where
  "push_votes ops squared_idf_weight image_score num_image_votes image_scores =
     (if sint num_image_votes > 0
      then image_scores @
             [(fst image_score,
               snd image_score / f_sqrt ops (f_of_int ops (sint num_image_votes))
                 * squared_idf_weight)]
      else image_scores)"

fun ScoreFeature_loop ::
  "('f::{zero,plus,times,inverse}, 'd) arith \<Rightarrow> 'f \<Rightarrow> bool list \<Rightarrow> InvertedFileEntry list
     \<Rightarrow> 'f ImageScore \<times> 32 word \<times> 'f ImageScore list
     \<Rightarrow> 'f ImageScore \<times> 32 word \<times> 'f ImageScore list" where
  "ScoreFeature_loop ops sq bin_descriptor [] st = st"
| "ScoreFeature_loop ops sq bin_descriptor (entry # rest)
       (image_score, num_image_votes, image_scores) =
     (let (image_score1, num_image_votes1, image_scores1) =
            (if fst image_score < image_id entry
             then ((image_id entry, 0), 0,
                   push_votes ops sq image_score num_image_votes image_scores)
             else (image_score, num_image_votes, image_scores));
          hamming_dist = bitset_count (bitset_xor bin_descriptor (descriptor entry))
      in ScoreFeature_loop ops sq bin_descriptor rest
           ((fst image_score1,
             snd image_score1 + hamming_dist_weight_functor ops hamming_dist),
            num_image_votes1 + 1, image_scores1))"

text \<open>\<open>ScoreFeature\<close> takes the output vector as it is on entry and returns it as it is on
  return.\<close>

definition ScoreFeature ::
  "('f::{zero,plus,times,inverse,ord}, 'd) arith \<Rightarrow> nat \<Rightarrow> 'f InvertedFile \<Rightarrow> 'f list
     \<Rightarrow> 'f ImageScore list \<Rightarrow> 'f ImageScore list" where
  "ScoreFeature ops N F desc image_scores0 =
     (let image_scores = [] in
      if \<not> IsUsable F then image_scores
      else if length (entries F) = 0 then image_scores
      else
        let squared_idf_weight = idf_weight F * idf_weight F;
            bin_descriptor = ConvertToBinaryDescriptor N F desc;
            (image_score, num_image_votes, image_scores') =
               ScoreFeature_loop ops squared_idf_weight bin_descriptor (entries F)
                 ((image_id (hd (entries F)), 0), 0, image_scores)
        in push_votes ops squared_idf_weight image_score num_image_votes image_scores')"

text \<open>
  \<open>ComputeImageSelfSimilarities\<close>. The squared weight is a \<open>float\<close> product, widened to
  \<open>double\<close>. \<open>std::vector::at\<close> takes a \<open>size_t\<close>: a negative \<open>image_id\<close> converts to a value
  above every size, and \<open>at\<close> throws \<open>std::out_of_range\<close> for an index that is not below the
  size. The exception leaves the function with the vector as updated so far.
\<close>

fun ComputeImageSelfSimilarities_loop ::
  "('d::plus) \<Rightarrow> InvertedFileEntry list \<Rightarrow> 'd list \<Rightarrow> error \<times> 'd list + 'd list" where
  "ComputeImageSelfSimilarities_loop sq [] self_similarities = Inr self_similarities"
| "ComputeImageSelfSimilarities_loop sq (entry # rest) self_similarities =
     (if 0 \<le> image_id entry \<and> nat (image_id entry) < length self_similarities
      then ComputeImageSelfSimilarities_loop sq rest
             (self_similarities[nat (image_id entry) :=
                self_similarities ! nat (image_id entry) + sq])
      else Inl (OutOfRange, self_similarities))"

definition ComputeImageSelfSimilarities ::
  "('f::times, 'd::plus) arith \<Rightarrow> 'f InvertedFile \<Rightarrow> 'd list \<Rightarrow> error \<times> 'd list + 'd list" where
  "ComputeImageSelfSimilarities ops F self_similarities =
     (let squared_idf_weight = d_of_f ops (idf_weight F * idf_weight F)
      in ComputeImageSelfSimilarities_loop squared_idf_weight (entries F) self_similarities)"

subsection \<open>The scores as the specification words them\<close>

text \<open>
  The specification describes the score of an image \<open>I\<close> with entries \<open>e\<^sub>1, \<dots>, e\<^sub>k\<close> as
  \<open>(\<Sum>\<^sub>j w(d\<^sub>j) / \<surd>k) \<cdot> idf_weight\<^sup>2\<close> with \<open>d\<^sub>j = popcount(query_sig XOR e\<^sub>j.sig)\<close>. The sum is
  the one the code accumulates: from \<open>0.0f\<close>, the weights added in the order of the entries.
\<close>

definition vote_weight :: "('f, 'd) arith \<Rightarrow> bool list \<Rightarrow> InvertedFileEntry \<Rightarrow> 'f" where
  "vote_weight ops query_sig e =
     hamming_dist_weight_functor ops (bitset_count (bitset_xor query_sig (descriptor e)))"

definition sum_votes ::
  "('f::plus, 'd) arith \<Rightarrow> bool list \<Rightarrow> 'f \<Rightarrow> InvertedFileEntry list \<Rightarrow> 'f" where
  "sum_votes ops query_sig s es = foldl (\<lambda>s e. s + vote_weight ops query_sig e) s es"

definition image_vote ::
  "('f::{zero,plus,times,inverse}, 'd) arith \<Rightarrow> bool list \<Rightarrow> 'f \<Rightarrow> InvertedFileEntry list
     \<Rightarrow> 'f" where
  "image_vote ops query_sig sq es =
     sum_votes ops query_sig 0 es / f_sqrt ops (f_of_int ops (int (length es))) * sq"

definition entries_of_image :: "InvertedFileEntry list \<Rightarrow> int \<Rightarrow> InvertedFileEntry list" where
  "entries_of_image es i = filter (\<lambda>e. image_id e = i) es"

text \<open>
  What the loop appends for one image, in terms of the 32-bit counter \<open>k\<close> it has reached for
  the entries \<open>es\<close> of that image, the sum having started from \<open>s\<close>: a pair if the counter is
  positive, nothing otherwise.
\<close>

definition counted_votes ::
  "('f::{plus,times,inverse}, 'd) arith \<Rightarrow> bool list \<Rightarrow> 'f \<Rightarrow> int \<Rightarrow> 'f \<Rightarrow> 32 word
     \<Rightarrow> InvertedFileEntry list \<Rightarrow> 'f ImageScore list" where
  "counted_votes ops query_sig sq i s k es =
     (if sint k > 0
      then [(i, sum_votes ops query_sig s es / f_sqrt ops (f_of_int ops (sint k)) * sq)]
      else [])"

subsection \<open>Concrete inputs\<close>

text \<open>
  The examples run on exact arithmetic: \<open>float\<close> and \<open>double\<close> are both \<open>real\<close>, the
  conversions are the identity, and the weight functor is the one of the specification's
  scenarios, \<open>w(d) = max(0, 1 - d/4)\<close>, with \<open>N = 8\<close>.
\<close>

definition spec_weight :: "nat \<Rightarrow> real" where
  "spec_weight d = max 0 (1 - real d / 4)"

definition exact_arith :: "(real, real) arith" where
  "exact_arith = \<lparr>f_sqrt = sqrt, f_of_int = real_of_int, f_of_d = (\<lambda>x. x), d_of_f = (\<lambda>x. x),
     d_of_int = real_of_int, d_of_nat = real, d_log = ln,
     hamming_dist_weight_functor = spec_weight\<rparr>"

definition ones8 :: "bool list" where
  "ones8 = [True, True, True, True, True, True, True, True]"

definition zeros8 :: "real list" where
  "zeros8 = [0, 0, 0, 0, 0, 0, 0, 0]"

definition query_ones :: "real list" where
  "query_ones = [1, 1, 1, 1, 1, 1, 1, 1]"

definition file_he_only :: "real InvertedFile" where
  "file_he_only = \<lparr>status = HAS_HAMMING_EMBEDDING, idf_weight = 1,
     entries = [\<lparr>image_id = 7, descriptor = ones8\<rparr>], thresholds = zeros8\<rparr>"

text \<open>A file whose only image has \<open>2\<^sup>3\<^sup>1\<close> entries, as \<open>2\<^sup>3\<^sup>1\<close> calls of \<open>AddEntry\<close> for image
  \<open>1\<close> followed by \<open>SortEntries\<close> leave it.\<close>

definition file_one_image_2p31 :: "real InvertedFile" where
  "file_one_image_2p31 = \<lparr>status = USABLE, idf_weight = 1,
     entries = replicate (2 ^ 31) \<lparr>image_id = 1, descriptor = ones8\<rparr>, thresholds = zeros8\<rparr>"

text \<open>A file with thresholds that are not all zero: the query of ones is above six of them
  and not above two.\<close>

definition file_thresholds :: "real InvertedFile" where
  "file_thresholds = \<lparr>status = USABLE, idf_weight = 2,
     entries = [\<lparr>image_id = 1, descriptor = [False, False, True, True, True, True, True, True]\<rparr>,
                \<lparr>image_id = 3, descriptor = ones8\<rparr>, \<lparr>image_id = 3, descriptor = ones8\<rparr>],
     thresholds = [2, 0, 0, 0, 0, 0, 0, 1]\<rparr>"

definition file_two_images :: "real InvertedFile" where
  "file_two_images = \<lparr>status = USABLE, idf_weight = 2,
     entries = [\<lparr>image_id = 1, descriptor = [False, False, True, True, True, True, True, True]\<rparr>,
                \<lparr>image_id = 3, descriptor = ones8\<rparr>, \<lparr>image_id = 3, descriptor = ones8\<rparr>],
     thresholds = zeros8\<rparr>"

subsection \<open>Sign laws of the arithmetic\<close>

text \<open>
  The laws of signs that the non-negativity of the weight rests on. The first is about the
  one division the code performs: a number of images, an \<open>int\<close> that is not negative, over a
  count of identifiers, a positive \<open>size_t\<close>; both convert to finite doubles. The others are
  about \<open>1.0 + x\<close>, \<open>std::log\<close> and the narrowing to \<open>float\<close>. Each holds of IEEE-754
  arithmetic with a faithful \<open>std::log\<close> (a comparison with a NaN is false, rounding is
  monotone and keeps the sign, an infinity stays an infinity), and of exact arithmetic.
\<close>

definition arith_sign_laws ::
  "('f::{zero,ord}, 'd::{zero,one,plus,inverse,ord}) arith \<Rightarrow> bool" where
  "arith_sign_laws ops \<longleftrightarrow>
     (\<forall>n k. 0 \<le> n \<and> n < 2 ^ 31 \<and> 0 < k \<and> k < 2 ^ 64 \<longrightarrow>
            0 \<le> d_of_int ops n / d_of_nat ops k) \<and>
     (\<forall>x :: 'd. 0 \<le> x \<longrightarrow> 1 \<le> 1 + x) \<and>
     (\<forall>x. 1 \<le> x \<longrightarrow> 0 \<le> d_log ops x) \<and>
     (\<forall>x. 0 \<le> x \<longrightarrow> 0 \<le> f_of_d ops x)"

definition file_five_images :: "real InvertedFile" where
  "file_five_images = \<lparr>status = USABLE, idf_weight = 0,
     entries = [\<lparr>image_id = 1, descriptor = ones8\<rparr>, \<lparr>image_id = 2, descriptor = ones8\<rparr>,
                \<lparr>image_id = 2, descriptor = ones8\<rparr>, \<lparr>image_id = 3, descriptor = ones8\<rparr>,
                \<lparr>image_id = 4, descriptor = ones8\<rparr>, \<lparr>image_id = 5, descriptor = ones8\<rparr>],
     thresholds = zeros8\<rparr>"

definition six_values :: "real list" where
  "six_values = [2, -1, 3, 0, 10, -5]"

definition four_rows :: "real list list" where
  "four_rows = [[2, 0, 0, 0, 0, 0, 0, 5], [-1, 1, 0, 0, 0, 0, 0, 6],
                [3, 2, 0, 0, 0, 0, 0, 7], [0, 3, 0, 0, 0, 0, 0, 8]]"


definition many_rows :: "real list list" where
  "many_rows = replicate (2 ^ 31) query_ones"


subsection \<open>Reading and writing\<close>

text \<open>
  A file stream is whether it is open, and its bytes: for an \<open>std::ofstream\<close> the bytes
  written so far, for an \<open>std::ifstream\<close> the bytes not yet read. \<open>read\<close> of \<open>n\<close> bytes takes the
  next \<open>n\<close> bytes; with fewer than \<open>n\<close> left the stream fails. The source does not test the
  stream, so after a failed read it returns with the object partly read; the model reports
  that outcome as \<open>StreamTruncated\<close> and does not describe the partly read object. Failures
  of the device under an \<open>ofstream\<close> are outside the model.
\<close>

type_synonym byte = "8 word"

record fstream =
  is_open :: bool
  buffer :: "byte list"

definition stream_read :: "nat \<Rightarrow> byte list \<Rightarrow> (byte list \<times> byte list) option" where
  "stream_read n bs = (if length bs < n then None else Some (take n bs, drop n bs))"

text \<open>The four bytes of a 32-bit object, least significant first (the layout of the
  specification: little-endian).\<close>

definition word32_bytes :: "32 word \<Rightarrow> byte list" where
  "word32_bytes w = [ucast w, ucast (drop_bit 8 w), ucast (drop_bit 16 w), ucast (drop_bit 24 w)]"

definition bytes_word32 :: "byte list \<Rightarrow> 32 word" where
  "bytes_word32 bs =
     ucast (bs ! 0) OR push_bit 8 (ucast (bs ! 1)) OR push_bit 16 (ucast (bs ! 2))
       OR push_bit 24 (ucast (bs ! 3))"

text \<open>
  \<open>reinterpret_cast<char*>\<close> on a \<open>float\<close> exposes its object representation, 32 bits. The
  representation is a parameter: \<open>float_bits\<close> gives the bits of a value, \<open>bits_float\<close> the
  value of the bits.
\<close>

record 'f float_repr =
  float_bits :: "'f \<Rightarrow> 32 word"
  bits_float :: "32 word \<Rightarrow> 'f"

definition write_float :: "'f float_repr \<Rightarrow> 'f \<Rightarrow> byte list" where
  "write_float rep x = word32_bytes (float_bits rep x)"

definition read_float :: "'f float_repr \<Rightarrow> byte list \<Rightarrow> ('f \<times> byte list) option" where
  "read_float rep bs =
     (case stream_read 4 bs of
        None \<Rightarrow> None
      | Some (raw, rest) \<Rightarrow> Some (bits_float rep (bytes_word32 raw), rest))"

text \<open>
  Modelled from the spec: \<open>InvertedFileEntry<N>::Write\<close> and \<open>InvertedFileEntry<N>::Read\<close> of
  \<open>retrieval/inverted_file_entry.h\<close>, which is not among the sources. The specification gives
  the layout of one entry: \<open>u32 image_id\<close>, then \<open>u8 signature[N/8]\<close>, "bits packed LSB-first
  within each byte", little-endian. Byte \<open>k\<close> of the signature holds the bits \<open>8k, \<dots>, 8k + 7\<close>.
  The optional payload that the specification leaves undefined is absent.
\<close>

definition byte_of_bits :: "bool list \<Rightarrow> byte" where
  "byte_of_bits bits = horner_sum of_bool 2 bits"

definition bits_of_byte :: "byte \<Rightarrow> bool list" where
  "bits_of_byte b = map (bit b) [0..<8]"

definition InvertedFileEntry_Write :: "nat \<Rightarrow> InvertedFileEntry \<Rightarrow> byte list" where
  "InvertedFileEntry_Write N entry =
     word32_bytes (word_of_int (image_id entry)) @
     map (\<lambda>k. byte_of_bits (take 8 (drop (8 * k) (descriptor entry)))) [0..<N div 8]"

definition InvertedFileEntry_Read ::
  "nat \<Rightarrow> byte list \<Rightarrow> (InvertedFileEntry \<times> byte list) option" where
  "InvertedFileEntry_Read N bs =
     (case stream_read 4 bs of
        None \<Rightarrow> None
      | Some (raw_id, rest) \<Rightarrow>
          (case stream_read (N div 8) rest of
             None \<Rightarrow> None
           | Some (raw_sig, rest') \<Rightarrow>
               Some (\<lparr>image_id = sint (bytes_word32 raw_id),
                      descriptor = concat (map bits_of_byte raw_sig)\<rparr>, rest')))"

text \<open>
  \<open>Write\<close>. The number of entries is cast to \<open>uint32_t\<close>: the size modulo \<open>2\<^sup>3\<^sup>2\<close>. That many
  entries are written, from the first.
\<close>

definition Write :: "nat \<Rightarrow> 'f float_repr \<Rightarrow> 'f InvertedFile \<Rightarrow> fstream \<Rightarrow> error + fstream" where
  "Write N rep F ofs =
     (if \<not> is_open ofs then Inl CheckFailed
      else
        let num_entries = (word_of_nat (length (entries F)) :: 32 word)
        in Inr (ofs\<lparr>buffer := buffer ofs @ [status F] @ write_float rep (idf_weight F) @
                   concat (map (\<lambda>i. write_float rep (thresholds F ! i)) [0..<N]) @
                   word32_bytes num_entries @
                   concat (map (\<lambda>i. InvertedFileEntry_Write N (entries F ! i))
                             [0..<unat num_entries])\<rparr>))"

text \<open>
  \<open>Read\<close>. The loop over the thresholds assigns \<open>thresholds_[i]\<close> for the indices in turn.
  \<open>entries_.resize(num_entries)\<close> followed by reading every entry in turn leaves the entries
  read, in order.
\<close>

fun read_thresholds ::
  "'f float_repr \<Rightarrow> nat list \<Rightarrow> 'f list \<Rightarrow> byte list \<Rightarrow> ('f list \<times> byte list) option" where
  "read_thresholds rep [] ths bs = Some (ths, bs)"
| "read_thresholds rep (i # rest) ths bs =
     (case read_float rep bs of
        None \<Rightarrow> None
      | Some (x, bs') \<Rightarrow> read_thresholds rep rest (ths[i := x]) bs')"

fun read_entries ::
  "nat \<Rightarrow> nat \<Rightarrow> byte list \<Rightarrow> (InvertedFileEntry list \<times> byte list) option" where
  "read_entries N 0 bs = Some ([], bs)"
| "read_entries N (Suc n) bs =
     (case InvertedFileEntry_Read N bs of
        None \<Rightarrow> None
      | Some (entry, bs') \<Rightarrow>
          (case read_entries N n bs' of
             None \<Rightarrow> None
           | Some (rest, bs'') \<Rightarrow> Some (entry # rest, bs'')))"

definition Read ::
  "nat \<Rightarrow> 'f float_repr \<Rightarrow> 'f InvertedFile \<Rightarrow> fstream
     \<Rightarrow> error + 'f InvertedFile \<times> fstream" where
  "Read N rep F ifs =
     (if \<not> is_open ifs then Inl CheckFailed
      else
        case stream_read 1 (buffer ifs) of
          None \<Rightarrow> Inl StreamTruncated
        | Some (raw_status, bs1) \<Rightarrow>
        (case read_float rep bs1 of
          None \<Rightarrow> Inl StreamTruncated
        | Some (idf, bs2) \<Rightarrow>
        (case read_thresholds rep [0..<N] (thresholds F) bs2 of
          None \<Rightarrow> Inl StreamTruncated
        | Some (ths, bs3) \<Rightarrow>
        (case stream_read 4 bs3 of
          None \<Rightarrow> Inl StreamTruncated
        | Some (raw_num, bs4) \<Rightarrow>
        (case read_entries N (unat (bytes_word32 raw_num)) bs4 of
          None \<Rightarrow> Inl StreamTruncated
        | Some (es, bs5) \<Rightarrow>
            Inr (F\<lparr>status := raw_status ! 0, idf_weight := idf, thresholds := ths,
                    entries := es\<rparr>,
                 ifs\<lparr>buffer := bs5\<rparr>))))))"

text \<open>Writing a file to an empty open stream, then reading the bytes written into a fresh
  object.\<close>

definition write_then_read ::
  "nat \<Rightarrow> ('f::zero) float_repr \<Rightarrow> 'f InvertedFile \<Rightarrow> error + 'f InvertedFile \<times> fstream" where
  "write_then_read N rep F =
     (case Write N rep F \<lparr>is_open = True, buffer = []\<rparr> of
        Inl err \<Rightarrow> Inl err
      | Inr ofs \<Rightarrow> Read N rep (InvertedFile_new N) \<lparr>is_open = True, buffer = buffer ofs\<rparr>)"

text \<open>Concrete inputs for the codec: the \<open>float\<close> is its bit pattern.\<close>

definition bits_repr :: "(32 word) float_repr" where
  "bits_repr = \<lparr>float_bits = (\<lambda>w. w), bits_float = (\<lambda>w. w)\<rparr>"

definition stored_file :: "(32 word) InvertedFile" where
  "stored_file = \<lparr>status = USABLE, idf_weight = 0x40200000,
     entries = [\<lparr>image_id = 1, descriptor = [False, False, True, True, True, True, True, True]\<rparr>,
                \<lparr>image_id = 3, descriptor = ones8\<rparr>],
     thresholds = [0x3F800000, 0, 0, 0, 0xBF800000, 0, 0, 0x40490FDB]\<rparr>"

definition huge_file :: "(32 word) InvertedFile" where
  "huge_file = \<lparr>status = USABLE, idf_weight = 0,
     entries = replicate (2 ^ 32) \<lparr>image_id = 1, descriptor = ones8\<rparr>,
     thresholds = [0, 0, 0, 0, 0, 0, 0, 0]\<rparr>"

text \<open>What the C++ types guarantee of an entry: \<open>N\<close> bits of signature and an \<open>image_id\<close> in
  the range of a 32-bit \<open>int\<close>.\<close>

definition entry_fits :: "nat \<Rightarrow> InvertedFileEntry \<Rightarrow> bool" where
  "entry_fits N e \<longleftrightarrow>
     length (descriptor e) = N \<and> - (2 ^ 31) \<le> image_id e \<and> image_id e < 2 ^ 31"


section \<open>Properties\<close>

subsection \<open>Status bits\<close>

lemma and_not_sorted_sorted: "(s AND NOT ENTRIES_SORTED) AND ENTRIES_SORTED = 0"
  by (simp add: and.assoc)

lemma and_not_sorted_he:
  "(s AND NOT ENTRIES_SORTED) AND HAS_HAMMING_EMBEDDING = s AND HAS_HAMMING_EMBEDDING"
  by (simp add: and.assoc ENTRIES_SORTED_def HAS_HAMMING_EMBEDDING_def)

lemma HasHammingEmbedding_IsUsable: "HasHammingEmbedding F \<Longrightarrow> IsUsable F"
proof -
  assume h: "HasHammingEmbedding F"
  have "(status F AND USABLE) AND HAS_HAMMING_EMBEDDING = status F AND HAS_HAMMING_EMBEDDING"
    by (simp add: and.assoc USABLE_def HAS_HAMMING_EMBEDDING_def)
  with h show ?thesis unfolding HasHammingEmbedding_def IsUsable_def by auto
qed

lemma upt8: "[0..<8] = [0, 1, 2, 3, 4, 5, 6, 7]"
  by (simp add: upt_rec)

text \<open>
  C10. \<open>ClearEntries\<close> empties the entries and clears the \<open>ENTRIES_SORTED\<close> bit; the
  \<open>HAS_HAMMING_EMBEDDING\<close> bit, the weight and the thresholds stay as they were. \<open>Reset\<close>
  zeroes the status, the weight and every threshold, and empties the entries.
\<close>

theorem ClearEntries_frame:
  "entries (ClearEntries F) = [] \<and> \<not> EntriesSorted (ClearEntries F) \<and>
   status (ClearEntries F) AND HAS_HAMMING_EMBEDDING = status F AND HAS_HAMMING_EMBEDDING \<and>
   HasHammingEmbedding (ClearEntries F) = HasHammingEmbedding F \<and>
   idf_weight (ClearEntries F) = idf_weight F \<and> thresholds (ClearEntries F) = thresholds F \<and>
   status (Reset N F) = 0 \<and> idf_weight (Reset N F) = 0 \<and> entries (Reset N F) = [] \<and>
   thresholds (Reset N F) = replicate N 0"
  by (simp add: ClearEntries_def Reset_def EntriesSorted_def HasHammingEmbedding_def
      and_not_sorted_sorted and_not_sorted_he UNUSABLE_def)

text \<open>
  C4. For an \<open>image_id\<close> that is not negative, \<open>AddEntry\<close> returns normally; the new entries
  are the old ones followed by one entry that carries the \<open>image_id\<close> and a signature of \<open>N\<close>
  bits, bit \<open>k\<close> being \<open>descriptor[k] > thresholds[k]\<close>; the \<open>ENTRIES_SORTED\<close> bit is clear
  afterwards, so \<open>EntriesSorted()\<close> is false; nothing else changes.
\<close>

theorem AddEntry_appends_and_unsorts:
  assumes "0 \<le> i"
  shows "\<exists>F' entry. AddEntry N F i desc = Inr F' \<and> entries F' = entries F @ [entry] \<and>
     image_id entry = i \<and> length (descriptor entry) = N \<and>
     (\<forall>k<N. descriptor entry ! k \<longleftrightarrow> desc ! k > thresholds F ! k) \<and>
     \<not> EntriesSorted F' \<and>
     status F' AND HAS_HAMMING_EMBEDDING = status F AND HAS_HAMMING_EMBEDDING \<and>
     idf_weight F' = idf_weight F \<and> thresholds F' = thresholds F"
  using assms
  by (simp add: AddEntry_def ConvertToBinaryDescriptor_def EntriesSorted_def
      and_not_sorted_sorted and_not_sorted_he)

theorem AddEntry_appends_and_unsorts_witness:
  "(0::int) \<le> 3 \<and>
   (\<exists>F' entry. AddEntry 8 file_two_images 3 query_ones = Inr F' \<and>
     entries F' = entries file_two_images @ [entry] \<and>
     image_id entry = 3 \<and> length (descriptor entry) = 8 \<and>
     (\<forall>k<8. descriptor entry ! k \<longleftrightarrow> query_ones ! k > thresholds file_two_images ! k) \<and>
     \<not> EntriesSorted F' \<and>
     status F' AND HAS_HAMMING_EMBEDDING = status file_two_images AND HAS_HAMMING_EMBEDDING \<and>
     idf_weight F' = idf_weight file_two_images \<and> thresholds F' = thresholds file_two_images)"
  using AddEntry_appends_and_unsorts [of 3 8 file_two_images query_ones] by simp

text \<open>A negative \<open>image_id\<close> fails the check and nothing is added.\<close>

lemma AddEntry_negative: "i < 0 \<Longrightarrow> AddEntry N F i desc = Inl CheckFailed"
  by (simp add: AddEntry_def)

subsection \<open>Scoring\<close>

text \<open>
  What does hold of the guard of \<open>ScoreFeature\<close>: the output is cleared, and it stays empty
  when \<open>IsUsable()\<close> is false or there is no entry. The file is a \<open>const\<close> object, so its state
  is not touched.
\<close>

lemma ScoreFeature_guard:
  "\<not> IsUsable F \<or> entries F = [] \<Longrightarrow> ScoreFeature ops N F desc image_scores0 = []"
  by (auto simp: ScoreFeature_def)

text \<open>\<open>IsUsable()\<close> is \<open>status_ & USABLE\<close> converted to \<open>bool\<close>: it is true as soon as one of the
  two bits is set.\<close>

lemma IsUsable_iff: "IsUsable F \<longleftrightarrow> HasHammingEmbedding F \<or> EntriesSorted F"
proof -
  have "status F AND USABLE =
        (status F AND HAS_HAMMING_EMBEDDING) OR (status F AND ENTRIES_SORTED)"
    by (simp add: USABLE_def HAS_HAMMING_EMBEDDING_def ENTRIES_SORTED_def
        flip: bit.conj_disj_distrib)
  then show ?thesis
    by (auto simp: IsUsable_def HasHammingEmbedding_def EntriesSorted_def or_eq_0_iff)
qed

text \<open>
  C1. The claim is that a file with only one of the two status bits set yields no scores.
  Evaluated on a file whose status is \<open>HAS_HAMMING_EMBEDDING\<close> alone, with one entry, the code
  emits a score.
\<close>

theorem ScoreFeature_scores_with_one_status_bit:
  "HasHammingEmbedding file_he_only \<and> \<not> EntriesSorted file_he_only \<and>
   ScoreFeature exact_arith 8 file_he_only query_ones [] = [(7, 1)]"
  by (simp add: file_he_only_def HasHammingEmbedding_def EntriesSorted_def IsUsable_def
      HAS_HAMMING_EMBEDDING_def ENTRIES_SORTED_def USABLE_def ScoreFeature_def
      ConvertToBinaryDescriptor_def upt8 push_votes_def bitset_xor_def bitset_count_def
      exact_arith_def spec_weight_def ones8_def zeros8_def query_ones_def)

lemma entries_of_image_Cons_other:
  "image_id e \<noteq> i \<Longrightarrow> entries_of_image (e # es) i = entries_of_image es i"
  by (simp add: entries_of_image_def)

lemma remdups_adj_sorted_Cons:
  "sorted (x # xs) \<Longrightarrow> remdups_adj (x # xs) = x # remdups_adj (filter (\<lambda>y. x < y) xs)"
  for x :: "'a::linorder"
proof (induction xs)
  case Nil
  then show ?case by simp
next
  case (Cons y ys)
  show ?case
  proof (cases "x = y")
    case True
    with Cons show ?thesis by simp
  next
    case False
    with Cons.prems have "x < y" and "\<forall>z\<in>set ys. x < z" by auto
    then have "filter (\<lambda>z. x < z) ys = ys" by simp
    with \<open>x < y\<close> False show ?thesis by simp
  qed
qed

lemma distinct_remdups_adj_sorted:
  "sorted xs \<Longrightarrow> distinct (remdups_adj xs)" for xs :: "'a::linorder list"
  by (induction xs rule: remdups_adj.induct) auto

lemma remdups_adj_sorted_list_of_set:
  "sorted xs \<Longrightarrow> remdups_adj xs = sorted_list_of_set (set xs)" for xs :: "'a::linorder list"
  by (rule sorted_distinct_set_unique)
     (simp_all add: distinct_remdups_adj_sorted)

text \<open>
  The sweep over entries that ascend by \<open>image_id\<close>, with the counter as the code keeps it:
  the images are visited in ascending order, and each contributes what \<open>counted_votes\<close>
  gives for its entries and the 32-bit count of them.
\<close>

lemma ScoreFeature_loop_sweep:
  fixes ops :: "('f::{zero,plus,times,inverse}, 'd) arith"
  assumes "sorted (map image_id es)" and "\<forall>e\<in>set es. cur \<le> image_id e"
  shows "(case ScoreFeature_loop ops sq q es ((cur, sc), votes, out) of
            (image_score, num_image_votes, image_scores) \<Rightarrow>
              push_votes ops sq image_score num_image_votes image_scores) =
         out @
         counted_votes ops q sq cur sc (votes + word_of_nat (length (entries_of_image es cur)))
           (entries_of_image es cur) @
         concat (map (\<lambda>i. counted_votes ops q sq i 0
                             (word_of_nat (length (entries_of_image es i)))
                             (entries_of_image es i))
             (remdups_adj (filter (\<lambda>i. cur < i) (map image_id es))))"
  using assms
proof (induction es arbitrary: cur sc votes out)
  case Nil
  then show ?case
    by (simp add: push_votes_def counted_votes_def entries_of_image_def sum_votes_def)
next
  case (Cons e es)
  from Cons.prems have sorted_es: "sorted (map image_id es)"
    and ge_e: "\<forall>x\<in>set es. image_id e \<le> image_id x" and cur_le: "cur \<le> image_id e"
    by auto
  show ?case
  proof (cases "cur < image_id e")
    case True
    have none_cur: "entries_of_image (e # es) cur = []"
      using True ge_e by (auto simp: entries_of_image_def filter_empty_conv)
    have all_gt: "filter (\<lambda>i. cur < i) (map image_id (e # es)) = map image_id (e # es)"
      using True ge_e by (auto simp: filter_id_conv)
    have ids: "remdups_adj (map image_id (e # es)) =
        image_id e # remdups_adj (filter (\<lambda>i. image_id e < i) (map image_id es))"
      using remdups_adj_sorted_Cons [of "image_id e" "map image_id es"] Cons.prems(1) by simp
    have own: "entries_of_image (e # es) (image_id e) = e # entries_of_image es (image_id e)"
      by (simp add: entries_of_image_def)
    have others: "map (\<lambda>i. counted_votes ops q sq i 0
                             (word_of_nat (length (entries_of_image (e # es) i)))
                             (entries_of_image (e # es) i))
             (remdups_adj (filter (\<lambda>i. image_id e < i) (map image_id es))) =
          map (\<lambda>i. counted_votes ops q sq i 0
                             (word_of_nat (length (entries_of_image es i)))
                             (entries_of_image es i))
             (remdups_adj (filter (\<lambda>i. image_id e < i) (map image_id es)))"
      by (rule map_cong [OF refl]) (simp add: entries_of_image_Cons_other less_imp_neq)
    have first: "counted_votes ops q sq (image_id e) 0
            (word_of_nat (length (entries_of_image (e # es) (image_id e))))
            (entries_of_image (e # es) (image_id e)) =
          counted_votes ops q sq (image_id e) (0 + vote_weight ops q e)
            (0 + 1 + word_of_nat (length (entries_of_image es (image_id e))))
            (entries_of_image es (image_id e))"
      by (simp add: own counted_votes_def sum_votes_def ac_simps)
    have step: "ScoreFeature_loop ops sq q (e # es) ((cur, sc), votes, out) =
        ScoreFeature_loop ops sq q es
                  ((image_id e, 0 + vote_weight ops q e), 0 + 1,
                   push_votes ops sq (cur, sc) votes out)"
      using True by (simp add: vote_weight_def)
    have pushed: "push_votes ops sq (cur, sc) votes out =
        out @ counted_votes ops q sq cur sc (votes + word_of_nat (length ([]::InvertedFileEntry list))) []"
      by (simp add: push_votes_def counted_votes_def sum_votes_def)
    show ?thesis
      unfolding step none_cur all_gt ids
        Cons.IH [OF sorted_es ge_e, of "0 + vote_weight ops q e" "0 + 1"
                       "push_votes ops sq (cur, sc) votes out"]
      by (simp only: pushed first others list.map concat.simps append_assoc)
  next
    case False
    with cur_le have eq: "image_id e = cur" by simp
    have own: "entries_of_image (e # es) cur = e # entries_of_image es cur"
      using eq by (simp add: entries_of_image_def)
    have ge_cur: "\<forall>x\<in>set es. cur \<le> image_id x" using ge_e eq by simp
    have flt: "filter (\<lambda>i. cur < i) (map image_id (e # es)) = filter (\<lambda>i. cur < i) (map image_id es)"
      using eq by simp
    have others: "map (\<lambda>i. counted_votes ops q sq i 0
                             (word_of_nat (length (entries_of_image (e # es) i)))
                             (entries_of_image (e # es) i))
             (remdups_adj (filter (\<lambda>i. cur < i) (map image_id es))) =
          map (\<lambda>i. counted_votes ops q sq i 0
                             (word_of_nat (length (entries_of_image es i)))
                             (entries_of_image es i))
             (remdups_adj (filter (\<lambda>i. cur < i) (map image_id es)))"
      using eq by (intro map_cong [OF refl]) (simp add: entries_of_image_Cons_other less_imp_neq)
    have first: "counted_votes ops q sq cur sc
            (votes + word_of_nat (length (entries_of_image (e # es) cur)))
            (entries_of_image (e # es) cur) =
          counted_votes ops q sq cur (sc + vote_weight ops q e)
            (votes + 1 + word_of_nat (length (entries_of_image es cur)))
            (entries_of_image es cur)"
      by (simp add: own counted_votes_def sum_votes_def ac_simps)
    have step: "ScoreFeature_loop ops sq q (e # es) ((cur, sc), votes, out) =
        ScoreFeature_loop ops sq q es ((cur, sc + vote_weight ops q e), votes + 1, out)"
      using False by (simp add: vote_weight_def)
    show ?thesis
      unfolding step flt
        Cons.IH [OF sorted_es ge_cur, of "sc + vote_weight ops q e" "votes + 1" out]
      by (simp only: first others)
  qed
qed

lemma ScoreFeature_sweep:
  fixes ops :: "('f::{zero,plus,times,inverse,ord}, 'd) arith"
  assumes usable: "IsUsable F" and nonempty: "entries F \<noteq> []"
    and sorted: "sorted (map image_id (entries F))"
  shows "ScoreFeature ops N F desc out0 =
     concat (map (\<lambda>i. counted_votes ops (ConvertToBinaryDescriptor N F desc)
                         (idf_weight F * idf_weight F) i 0
                         (word_of_nat (length (entries_of_image (entries F) i)))
                         (entries_of_image (entries F) i))
         (remdups_adj (map image_id (entries F))))"
proof -
  from nonempty obtain e es where es: "entries F = e # es" by (cases "entries F") auto
  let ?q = "ConvertToBinaryDescriptor N F desc"
  let ?sq = "idf_weight F * idf_weight F"
  from sorted es have s: "sorted (map image_id (e # es))"
    and ge: "\<forall>x\<in>set (e # es). image_id e \<le> image_id x" by auto
  have ids: "remdups_adj (map image_id (e # es)) =
        image_id e # remdups_adj (filter (\<lambda>i. image_id e < i) (map image_id (e # es)))"
    using remdups_adj_sorted_Cons [of "image_id e" "map image_id es"] s by simp
  have "ScoreFeature ops N F desc out0 =
      (case ScoreFeature_loop ops ?sq ?q (e # es) ((image_id e, 0), 0, []) of
         (image_score, num_image_votes, image_scores) \<Rightarrow>
            push_votes ops ?sq image_score num_image_votes image_scores)"
    using usable by (simp add: ScoreFeature_def es Let_def)
  also have "\<dots> = concat (map (\<lambda>i. counted_votes ops ?q ?sq i 0
                         (word_of_nat (length (entries_of_image (e # es) i)))
                         (entries_of_image (e # es) i))
         (remdups_adj (map image_id (e # es))))"
  proof -
    have rhs: "concat (map G (remdups_adj (map image_id (e # es)))) =
        G (image_id e) @
        concat (map G (remdups_adj (filter (\<lambda>i. image_id e < i) (map image_id (e # es)))))"
      for G :: "int \<Rightarrow> 'f ImageScore list"
      by (subst ids) simp
    show ?thesis
      unfolding ScoreFeature_loop_sweep [OF s ge] rhs by simp
  qed
  finally show ?thesis by (simp add: es)
qed


lemma sint_count: "k < 2 ^ 31 \<Longrightarrow> sint (word_of_nat k :: 32 word) = int k"
proof -
  assume "k < 2 ^ 31"
  then have "int k < 2 ^ 31" by (metis of_nat_less_numeral_power_cancel_iff)
  then show ?thesis
    by (simp add: signed_of_nat signed_take_bit_int_eq_self)
qed

text \<open>
  Below \<open>2\<^sup>3\<^sup>1\<close> entries the counter is the number of entries of the image, and the sweep is
  what the specification describes: one pair per distinct \<open>image_id\<close>, ascending, with the
  score \<open>(\<Sum>\<^sub>j w(d\<^sub>j) / \<surd>k) \<cdot> idf_weight\<^sup>2\<close>; the query signature has \<open>N\<close> bits, bit \<open>i\<close> being
  \<open>descriptor[i] > thresholds[i]\<close>.
\<close>

lemma counted_votes_below_overflow:
  fixes ops :: "('f::{zero,plus,times,inverse}, 'd) arith"
  assumes "i \<in> image_id ` set es" and "length es < 2 ^ 31"
  shows "counted_votes ops q sq i 0 (word_of_nat (length (entries_of_image es i)))
           (entries_of_image es i) = [(i, image_vote ops q sq (entries_of_image es i))]"
proof -
  from assms(1) have "entries_of_image es i \<noteq> []"
    by (auto simp: entries_of_image_def filter_empty_conv)
  then have pos: "0 < length (entries_of_image es i)" by simp
  have "length (entries_of_image es i) \<le> length es" by (simp add: entries_of_image_def)
  with assms(2) have "length (entries_of_image es i) < 2 ^ 31" by simp
  from sint_count [OF this] pos show ?thesis
    by (simp add: counted_votes_def image_vote_def)
qed

lemma ConvertToBinaryDescriptor_bits:
  "length (ConvertToBinaryDescriptor N F desc) = N \<and>
   (\<forall>i<N. ConvertToBinaryDescriptor N F desc ! i \<longleftrightarrow> desc ! i > thresholds F ! i)"
  by (simp add: ConvertToBinaryDescriptor_def)

lemma ScoreFeature_scores_below_overflow:
  fixes ops :: "('f::{zero,plus,times,inverse,ord}, 'd) arith"
  assumes "HasHammingEmbedding F" and "EntriesSorted F" and "entries F \<noteq> []"
    and "sorted (map image_id (entries F))" and "length (entries F) < 2 ^ 31"
  shows "\<exists>query_sig. length query_sig = N \<and>
     (\<forall>i<N. query_sig ! i \<longleftrightarrow> desc ! i > thresholds F ! i) \<and>
     ScoreFeature ops N F desc out0 =
       map (\<lambda>i. (i, image_vote ops query_sig (idf_weight F * idf_weight F)
                       (entries_of_image (entries F) i)))
           (sorted_list_of_set (image_id ` set (entries F)))"
proof -
  let ?q = "ConvertToBinaryDescriptor N F desc"
  let ?sq = "idf_weight F * idf_weight F"
  let ?ids = "remdups_adj (map image_id (entries F))"
  have "map (\<lambda>i. counted_votes ops ?q ?sq i 0
                (word_of_nat (length (entries_of_image (entries F) i)))
                (entries_of_image (entries F) i)) ?ids =
        map (\<lambda>i. [(i, image_vote ops ?q ?sq (entries_of_image (entries F) i))]) ?ids"
    by (rule map_cong [OF refl]) (simp add: counted_votes_below_overflow [OF _ assms(5)])
  then have "ScoreFeature ops N F desc out0 =
        concat (map (\<lambda>i. [(i, image_vote ops ?q ?sq (entries_of_image (entries F) i))]) ?ids)"
    by (simp only: ScoreFeature_sweep
          [OF HasHammingEmbedding_IsUsable [OF assms(1)] assms(3) assms(4)])
  also have "\<dots> = map (\<lambda>i. (i, image_vote ops ?q ?sq (entries_of_image (entries F) i))) ?ids"
    by (induction ?ids) simp_all
  finally have "ScoreFeature ops N F desc out0 =
       map (\<lambda>i. (i, image_vote ops ?q ?sq (entries_of_image (entries F) i)))
           (sorted_list_of_set (image_id ` set (entries F)))"
    using remdups_adj_sorted_list_of_set [OF assms(4)] by simp
  with ConvertToBinaryDescriptor_bits [of N F desc] show ?thesis by blast
qed

lemma GetImageIds_eq: "GetImageIds F ids = ids \<union> image_id ` set (entries F)"
proof -
  have "foldl (\<lambda>s entry. insert (image_id entry) s) ids es = ids \<union> image_id ` set es"
    for es :: "InvertedFileEntry list" and ids
    by (induction es arbitrary: ids) auto
  then show ?thesis by (simp add: GetImageIds_def)
qed

lemma ScoreFeature_ids_below_overflow:
  fixes ops :: "('f::{zero,plus,times,inverse,ord}, 'd) arith"
  assumes "HasHammingEmbedding F" and "EntriesSorted F" and "entries F \<noteq> []"
    and "sorted (map image_id (entries F))" and "length (entries F) < 2 ^ 31"
  shows "fst ` set (ScoreFeature ops N F desc out0) = image_id ` set (entries F) \<and>
         GetImageIds F ids = ids \<union> fst ` set (ScoreFeature ops N F desc out0)"
proof -
  from ScoreFeature_scores_below_overflow [OF assms, of N desc ops out0]
  obtain q where "ScoreFeature ops N F desc out0 =
       map (\<lambda>i. (i, image_vote ops q (idf_weight F * idf_weight F)
                       (entries_of_image (entries F) i)))
           (sorted_list_of_set (image_id ` set (entries F)))" by blast
  then have "fst ` set (ScoreFeature ops N F desc out0) = image_id ` set (entries F)"
    by (simp add: image_image)
  then show ?thesis by (simp add: GetImageIds_eq)
qed

lemma file_one_image_2p31_usable:
  "HasHammingEmbedding file_one_image_2p31" "EntriesSorted file_one_image_2p31"
  "entries file_one_image_2p31 \<noteq> []" "sorted (map image_id (entries file_one_image_2p31))"
  by (simp_all add: file_one_image_2p31_def HasHammingEmbedding_def EntriesSorted_def USABLE_def
      HAS_HAMMING_EMBEDDING_def ENTRIES_SORTED_def)

lemma ScoreFeature_file_one_image_2p31:
  "ScoreFeature exact_arith 8 file_one_image_2p31 query_ones [] = []"
proof -
  have ids: "remdups_adj (map image_id (entries file_one_image_2p31)) = [1]"
    by (simp add: file_one_image_2p31_def remdups_adj_replicate)
  have own: "entries_of_image (entries file_one_image_2p31) 1 = entries file_one_image_2p31"
    by (simp add: file_one_image_2p31_def entries_of_image_def)
  have count: "sint (word_of_nat (length (entries file_one_image_2p31)) :: 32 word) = - (2 ^ 31)"
    by (simp add: file_one_image_2p31_def)
  show ?thesis
    unfolding ScoreFeature_sweep [OF HasHammingEmbedding_IsUsable
        [OF file_one_image_2p31_usable(1)] file_one_image_2p31_usable(3,4)] ids
    by (simp add: own counted_votes_def count)
qed

text \<open>
  C2. The claim is that on every file with both status bits set, whose entries are not
  empty and ascend by \<open>image_id\<close>, \<open>ScoreFeature\<close> emits one pair per distinct \<open>image_id\<close>, with
  the score \<open>(\<Sum>\<^sub>j w(d\<^sub>j) / \<surd>k) \<cdot> idf_weight\<^sup>2\<close>. Evaluated on a file of that kind whose single
  image \<open>1\<close> has \<open>2\<^sup>3\<^sup>1\<close> entries, the code emits nothing: the \<open>int\<close> counter has wrapped to
  \<open>-2\<^sup>3\<^sup>1\<close> and fails the test \<open>num_image_votes > 0\<close>.
\<close>

theorem ScoreFeature_drops_image_at_counter_overflow:
  "HasHammingEmbedding file_one_image_2p31 \<and> EntriesSorted file_one_image_2p31 \<and>
   entries file_one_image_2p31 \<noteq> [] \<and> sorted (map image_id (entries file_one_image_2p31)) \<and>
   image_id ` set (entries file_one_image_2p31) = {1} \<and>
   ScoreFeature exact_arith 8 file_one_image_2p31 query_ones [] = []"
  using file_one_image_2p31_usable ScoreFeature_file_one_image_2p31
  by (simp add: file_one_image_2p31_def)

text \<open>
  C9. The claim is that on every such file the identifiers that \<open>ScoreFeature\<close> emits are
  those that \<open>GetImageIds\<close> inserts. Evaluated on the file whose single image \<open>1\<close> has \<open>2\<^sup>3\<^sup>1\<close>
  entries, \<open>ScoreFeature\<close> emits no identifier and \<open>GetImageIds\<close> inserts \<open>1\<close>.
\<close>

theorem ScoreFeature_ids_differ_at_counter_overflow:
  "HasHammingEmbedding file_one_image_2p31 \<and> EntriesSorted file_one_image_2p31 \<and>
   entries file_one_image_2p31 \<noteq> [] \<and> sorted (map image_id (entries file_one_image_2p31)) \<and>
   fst ` set (ScoreFeature exact_arith 8 file_one_image_2p31 query_ones []) = {} \<and>
   GetImageIds file_one_image_2p31 {} = {1}"
  using file_one_image_2p31_usable ScoreFeature_file_one_image_2p31
  by (simp add: GetImageIds_eq) (simp add: file_one_image_2p31_def)

text \<open>An example below the bound, with thresholds that decide the query signature: the
  query of ones against the thresholds \<open>2, 0, 0, 0, 0, 0, 0, 1\<close> has the first and the last
  bit clear.\<close>

lemma file_thresholds_usable:
  "HasHammingEmbedding file_thresholds" "EntriesSorted file_thresholds"
  "entries file_thresholds \<noteq> []" "sorted (map image_id (entries file_thresholds))"
  "length (entries file_thresholds) < 2 ^ 31"
  by (simp_all add: file_thresholds_def HasHammingEmbedding_def EntriesSorted_def USABLE_def
      HAS_HAMMING_EMBEDDING_def ENTRIES_SORTED_def)

lemma ScoreFeature_file_thresholds:
  "ScoreFeature exact_arith 8 file_thresholds query_ones [] = [(1, 2), (3, 1 / sqrt 2 * 4)]"
proof -
  from ScoreFeature_scores_below_overflow [OF file_thresholds_usable, of 8 query_ones exact_arith "[]"]
  obtain q where len: "length q = 8"
    and bits: "\<forall>i<8. q ! i \<longleftrightarrow> query_ones ! i > thresholds file_thresholds ! i"
    and sc: "ScoreFeature exact_arith 8 file_thresholds query_ones [] =
       map (\<lambda>i. (i, image_vote exact_arith q (idf_weight file_thresholds * idf_weight file_thresholds)
                       (entries_of_image (entries file_thresholds) i)))
           (sorted_list_of_set (image_id ` set (entries file_thresholds)))"
    by blast
  have "q = map (\<lambda>i. q ! i) [0..<8]" using len by (metis map_nth)
  also have "\<dots> = [False, True, True, True, True, True, True, False]"
    using bits by (simp add: upt8 query_ones_def file_thresholds_def)
  finally have q: "q = [False, True, True, True, True, True, True, False]" .
  have ids: "sorted_list_of_set (image_id ` set (entries file_thresholds)) = [1, 3]"
    by (simp add: file_thresholds_def)
  show ?thesis
    unfolding sc ids q
    by (simp add: file_thresholds_def image_vote_def sum_votes_def vote_weight_def
        entries_of_image_def bitset_xor_def bitset_count_def
        exact_arith_def spec_weight_def ones8_def)
qed


subsection \<open>The weight of the file\<close>

lemma exact_arith_sign_laws: "arith_sign_laws exact_arith"
  by (simp add: arith_sign_laws_def exact_arith_def)

lemma arith_sign_lawsD:
  fixes ops :: "('f::{zero,ord}, 'd::{zero,one,plus,inverse,ord}) arith"
  assumes "arith_sign_laws ops"
  shows "0 \<le> n \<Longrightarrow> n < 2 ^ 31 \<Longrightarrow> 0 < k \<Longrightarrow> k < 2 ^ 64
           \<Longrightarrow> 0 \<le> d_of_int ops n / d_of_nat ops k"
    and "0 \<le> x \<Longrightarrow> 1 \<le> 1 + (x::'d)"
    and "1 \<le> x \<Longrightarrow> 0 \<le> d_log ops x"
    and "0 \<le> x \<Longrightarrow> 0 \<le> f_of_d ops x"
  using assms by (simp_all add: arith_sign_laws_def)

text \<open>
  C7. Without entries \<open>ComputeIDFWeight\<close> changes nothing. With entries it sets the weight to
  the logarithm (\<open>std::log\<close>, the natural logarithm) of one plus the number of images divided
  by the number of distinct identifiers among the entries, computed in \<open>double\<close> and narrowed
  to \<open>float\<close>. Under the sign laws, a number of images that is not negative gives a weight
  that is not negative; the number of images is an \<open>int\<close> and the number of entries a
  \<open>size_t\<close>.
\<close>

theorem ComputeIDFWeight_formula:
  fixes ops :: "('f::{zero,ord}, 'd::{zero,one,plus,inverse,ord}) arith"
  shows "(entries F = [] \<longrightarrow> ComputeIDFWeight ops n F = F) \<and>
    (entries F \<noteq> [] \<longrightarrow>
       ComputeIDFWeight ops n F =
         F\<lparr>idf_weight := f_of_d ops (d_log ops
              (1 + d_of_int ops n / d_of_nat ops (card (image_id ` set (entries F)))))\<rparr>) \<and>
    (entries F \<noteq> [] \<and> 0 \<le> n \<and> n < 2 ^ 31 \<and> length (entries F) < 2 ^ 64 \<and>
     arith_sign_laws ops \<longrightarrow>
       0 \<le> idf_weight (ComputeIDFWeight ops n F))"
proof (intro conjI impI)
  assume "entries F = []"
  then show "ComputeIDFWeight ops n F = F" by (simp add: ComputeIDFWeight_def)
next
  assume "entries F \<noteq> []"
  then show "ComputeIDFWeight ops n F =
         F\<lparr>idf_weight := f_of_d ops (d_log ops
              (1 + d_of_int ops n / d_of_nat ops (card (image_id ` set (entries F)))))\<rparr>"
    by (simp add: ComputeIDFWeight_def GetImageIds_eq)
next
  assume a: "entries F \<noteq> [] \<and> 0 \<le> n \<and> n < 2 ^ 31 \<and> length (entries F) < 2 ^ 64 \<and>
     arith_sign_laws ops"
  let ?U = "card (image_id ` set (entries F))"
  from a have "image_id ` set (entries F) \<noteq> {}" by simp
  then have U: "0 < ?U" by (simp add: card_gt_0_iff)
  have "?U \<le> card (set (entries F))" by (rule card_image_le) simp
  also have "\<dots> \<le> length (entries F)" by (rule card_length)
  finally have U64: "?U < 2 ^ 64" using a by simp
  from a have laws: "arith_sign_laws ops" and n: "0 \<le> n" "n < 2 ^ 31" by simp_all
  note L = arith_sign_lawsD [OF laws]
  have "0 \<le> f_of_d ops (d_log ops (1 + d_of_int ops n / d_of_nat ops ?U))"
    by (intro L(4) L(3) L(2) L(1) n U U64)
  with a show "0 \<le> idf_weight (ComputeIDFWeight ops n F)"
    by (simp add: ComputeIDFWeight_def GetImageIds_eq)
qed

theorem ComputeIDFWeight_formula_witness:
  "entries file_five_images \<noteq> [] \<and> (0::int) \<le> 1000 \<and> (1000::int) < 2 ^ 31 \<and>
   length (entries file_five_images) < 2 ^ 64 \<and> arith_sign_laws exact_arith \<and>
   idf_weight (ComputeIDFWeight exact_arith 1000 file_five_images) = ln 201 \<and>
   0 \<le> idf_weight (ComputeIDFWeight exact_arith 1000 file_five_images) \<and>
   ComputeIDFWeight exact_arith 1000 (file_five_images\<lparr>entries := []\<rparr>)
     = file_five_images\<lparr>entries := []\<rparr>"
proof -
  have ne: "entries file_five_images \<noteq> []" by (simp add: file_five_images_def)
  have len: "length (entries file_five_images) < 2 ^ 64" by (simp add: file_five_images_def)
  have U: "card (image_id ` set (entries file_five_images)) = 5"
    by (simp add: file_five_images_def)
  note T = ComputeIDFWeight_formula [of file_five_images exact_arith 1000]
  from T ne have f: "ComputeIDFWeight exact_arith 1000 file_five_images =
      file_five_images\<lparr>idf_weight := f_of_d exact_arith (d_log exact_arith
              (1 + d_of_int exact_arith 1000 / d_of_nat exact_arith
                 (card (image_id ` set (entries file_five_images)))))\<rparr>" by blast
  have v: "idf_weight (ComputeIDFWeight exact_arith 1000 file_five_images) = ln 201"
    unfolding f U by (simp add: exact_arith_def)
  have hyp: "entries file_five_images \<noteq> [] \<and> (0::int) \<le> 1000 \<and> (1000::int) < 2 ^ 31 \<and>
     length (entries file_five_images) < 2 ^ 64 \<and> arith_sign_laws exact_arith"
    using ne len exact_arith_sign_laws by simp
  have p: "0 \<le> idf_weight (ComputeIDFWeight exact_arith 1000 file_five_images)"
    by (rule T [THEN conjunct2, THEN conjunct2, THEN mp, OF hyp])
  from ComputeIDFWeight_formula [of "file_five_images\<lparr>entries := []\<rparr>" exact_arith 1000]
  have e: "ComputeIDFWeight exact_arith 1000 (file_five_images\<lparr>entries := []\<rparr>)
     = file_five_images\<lparr>entries := []\<rparr>" by simp
  from ne len exact_arith_sign_laws v p e show ?thesis by simp
qed


subsection \<open>Learning the thresholds\<close>

lemma foldl_list_update_prefix:
  "k \<le> length ths \<Longrightarrow>
   foldl (\<lambda>ths n. ths[n := f n]) ths [0..<k] = map f [0..<k] @ drop k ths"
proof (induction k)
  case 0
  then show ?case by simp
next
  case (Suc k)
  then have k: "k < length ths" by simp
  have d: "drop k ths = ths ! k # drop (Suc k) ths"
    using k by (simp add: Cons_nth_drop_Suc)
  have "foldl (\<lambda>ths n. ths[n := f n]) ths [0..<Suc k] = (map f [0..<k] @ drop k ths)[k := f k]"
    using Suc by simp
  also have "\<dots> = map f [0..<k] @ (drop k ths)[0 := f k]"
    by (simp add: list_update_append)
  also have "\<dots> = map f [0..<Suc k] @ drop (Suc k) ths"
    unfolding d by simp
  finally show ?case .
qed

lemma foldl_list_update_upt:
  "length ths = N \<Longrightarrow> foldl (\<lambda>ths n. ths[n := f n]) ths [0..<N] = map f [0..<N]"
  using foldl_list_update_prefix [of N ths f] by simp

lemma sint_row_count: "M < 2 ^ 31 \<Longrightarrow> sint (word_of_nat M :: 32 word) = int M"
proof -
  assume "M < 2 ^ 31"
  then have "int M < 2 ^ 31" by (metis of_nat_less_numeral_power_cancel_iff)
  then show ?thesis
    by (simp add: signed_of_nat signed_take_bit_int_eq_self)
qed

lemma column_eq: "map (\<lambda>i. D ! i ! n) [0..<length D] = map (\<lambda>row. row ! n) D"
  by (rule nth_equalityI) simp_all

lemma or_he_he: "(s OR HAS_HAMMING_EMBEDDING) AND HAS_HAMMING_EMBEDDING = HAS_HAMMING_EMBEDDING"
  by (simp add: HAS_HAMMING_EMBEDDING_def)

lemma ComputeHammingEmbedding_few_rows:
  "length D < 2 \<Longrightarrow> ComputeHammingEmbedding N F D = F"
proof -
  assume "length D < 2"
  then have "length D < 2 ^ 31" by simp
  from sint_row_count [OF this] \<open>length D < 2\<close> show ?thesis
    by (simp add: ComputeHammingEmbedding_def)
qed

lemma ComputeHammingEmbedding_rows:
  assumes "2 \<le> length D" and "length D < 2 ^ 31" and "length (thresholds F) = N"
  shows "ComputeHammingEmbedding N F D =
     F\<lparr>thresholds := map (\<lambda>n. Median (map (\<lambda>row. row ! n) D)) [0..<N],
       status := status F OR HAS_HAMMING_EMBEDDING\<rparr>"
  using assms sint_row_count [OF assms(2)]
  by (simp add: ComputeHammingEmbedding_def foldl_list_update_upt column_eq)

text \<open>
  What holds of \<open>ComputeHammingEmbedding\<close> while the cast keeps the row count. With fewer than two rows \<open>ComputeHammingEmbedding\<close> changes nothing.
  With \<open>M\<close> rows, \<open>2 \<le> M < 2\<^sup>3\<^sup>1\<close>, it sets threshold \<open>n\<close> to the median of the \<open>M\<close> values of
  column \<open>n\<close>, for every \<open>n < N\<close>, and sets the \<open>HAS_HAMMING_EMBEDDING\<close> bit; the weight and the
  entries stay. The bound \<open>2\<^sup>3\<^sup>1\<close> is that of the \<open>int\<close> the row count is cast to.
\<close>

lemma ComputeHammingEmbedding_learns_medians:
  "(length D < 2 \<longrightarrow> ComputeHammingEmbedding N F D = F) \<and>
   (2 \<le> length D \<and> length D < 2 ^ 31 \<and> length (thresholds F) = N \<longrightarrow>
      (\<forall>n<N. thresholds (ComputeHammingEmbedding N F D) ! n = Median (map (\<lambda>row. row ! n) D)) \<and>
      length (thresholds (ComputeHammingEmbedding N F D)) = N \<and>
      HasHammingEmbedding (ComputeHammingEmbedding N F D) \<and>
      status (ComputeHammingEmbedding N F D) = status F OR HAS_HAMMING_EMBEDDING \<and>
      idf_weight (ComputeHammingEmbedding N F D) = idf_weight F \<and>
      entries (ComputeHammingEmbedding N F D) = entries F)"
  by (simp add: ComputeHammingEmbedding_few_rows ComputeHammingEmbedding_rows
      HasHammingEmbedding_def or_he_he) (simp add: HAS_HAMMING_EMBEDDING_def)


lemma ComputeHammingEmbedding_learns_medians_example:
  "2 \<le> length four_rows \<and> length four_rows < 2 ^ 31 \<and>
   length (thresholds (InvertedFile_new 8 :: real InvertedFile)) = 8 \<and>
   thresholds (ComputeHammingEmbedding 8 (InvertedFile_new 8) four_rows)
     = [0, 1, 0, 0, 0, 0, 0, 6] \<and>
   HasHammingEmbedding (ComputeHammingEmbedding 8 (InvertedFile_new 8) four_rows) \<and>
   length [query_ones] < 2 \<and>
   ComputeHammingEmbedding 8 (InvertedFile_new 8) [query_ones] = InvertedFile_new 8"
proof -
  let ?F = "InvertedFile_new 8 :: real InvertedFile"
  have h: "2 \<le> length four_rows" "length four_rows < 2 ^ 31" "length (thresholds ?F) = 8"
    by (simp_all add: four_rows_def InvertedFile_new_def)
  have one: "length [query_ones] < 2" by simp
  from ComputeHammingEmbedding_learns_medians [of four_rows 8 ?F] h
  have ths: "\<forall>n<8. thresholds (ComputeHammingEmbedding 8 ?F four_rows) ! n
               = Median (map (\<lambda>row. row ! n) four_rows)"
    and len: "length (thresholds (ComputeHammingEmbedding 8 ?F four_rows)) = 8"
    and he: "HasHammingEmbedding (ComputeHammingEmbedding 8 ?F four_rows)"
    by blast+
  have "thresholds (ComputeHammingEmbedding 8 ?F four_rows) =
        map (\<lambda>n. Median (map (\<lambda>row. row ! n) four_rows)) [0..<8]"
    using ths len by (intro nth_equalityI) simp_all
  also have "\<dots> = [0, 1, 0, 0, 0, 0, 0, 6]"
    by (simp add: upt8 four_rows_def Median_def ascending_def)
  finally have t: "thresholds (ComputeHammingEmbedding 8 ?F four_rows)
                   = [0, 1, 0, 0, 0, 0, 0, 6]" .
  from ComputeHammingEmbedding_learns_medians [of "[query_ones]" 8 ?F] one
  have "ComputeHammingEmbedding 8 ?F [query_ones] = ?F" by blast
  with h t he one show ?thesis by blast
qed

text \<open>
  C5. The claim is that fewer than two rows change nothing and that with \<open>M \<ge> 2\<close> rows every
  threshold is set to the median of its column and the \<open>HAS_HAMMING_EMBEDDING\<close> bit is set.
  Evaluated on \<open>2\<^sup>3\<^sup>1\<close> rows, the code changes nothing: \<open>static_cast<int>\<close> makes the row count
  \<open>-2\<^sup>3\<^sup>1\<close>, which is below two.
\<close>

theorem ComputeHammingEmbedding_skips_2p31_rows:
  "2 \<le> length many_rows \<and>
   ComputeHammingEmbedding 8 (InvertedFile_new 8) many_rows = InvertedFile_new 8 \<and>
   \<not> HasHammingEmbedding (ComputeHammingEmbedding 8 (InvertedFile_new 8) many_rows)"
  by (simp add: many_rows_def ComputeHammingEmbedding_def InvertedFile_new_def
      HasHammingEmbedding_def UNUSABLE_def)

lemma ascending_sort: "ascending xs = sort xs" for xs :: "'a::linorder list"
proof -
  have ins: "insert_ascending x ys = insort x ys" for x :: 'a and ys
    by (induction ys) simp_all
  have "(insert_ascending :: 'a \<Rightarrow> 'a list \<Rightarrow> 'a list) = insort"
    by (intro ext) (rule ins)
  then show ?thesis by (simp add: ascending_def sort_key_def)
qed

lemma Median_lower_middle:
  "Median xs = sort xs ! ((length xs - 1) div 2)" for xs :: "'a::linorder list"
  by (simp add: Median_def ascending_sort)

lemma even_lower_middle_index:
  "even M \<Longrightarrow> 0 < M \<Longrightarrow> (M - 1) div 2 = M div 2 - 1" for M :: nat
  by (auto elim!: evenE)

lemma ComputeHammingEmbedding_four_values:
  fixes F :: "real InvertedFile"
  assumes "0 < N" and "length (thresholds F) = N"
    and "mset (map (\<lambda>row. row ! 0) D) = mset [-1, 0, 2, 3]"
  shows "thresholds (ComputeHammingEmbedding N F D) ! 0 = 0"
proof -
  let ?col = "map (\<lambda>row. row ! 0) D"
  from assms(3) have "size (mset ?col) = 4" by simp
  then have len: "length D = 4" by simp
  have "sort ?col = [-1, 0, 2, 3]"
    using assms(3) by (intro properties_for_sort) simp_all
  then have "Median ?col = 0"
    by (simp add: Median_lower_middle len)
  with assms len show ?thesis
    by (simp add: ComputeHammingEmbedding_rows)
qed

text \<open>
  C6. The median breaks ties for an even number of values by taking the lower of the two
  middle ones: of \<open>M\<close> values, \<open>M\<close> even, it is the value at position \<open>M div 2 - 1\<close> in ascending
  order (positions from \<open>0\<close>). So a column that holds the four values \<open>-1\<close>, \<open>0\<close>, \<open>2\<close>, \<open>3\<close>, in
  any order, gives the threshold \<open>0\<close>, whatever the threshold was.
\<close>

theorem Median_even_lower_middle:
  fixes xs :: "'a::linorder list" and F :: "real InvertedFile"
  shows "(even (length xs) \<and> xs \<noteq> [] \<longrightarrow> Median xs = sort xs ! (length xs div 2 - 1)) \<and>
    (0 < N \<and> length (thresholds F) = N \<and>
     mset (map (\<lambda>row. row ! 0) D) = mset [-1, 0, 2, 3] \<longrightarrow>
       thresholds (ComputeHammingEmbedding N F D) ! 0 = 0)"
proof (intro conjI impI)
  assume "even (length xs) \<and> xs \<noteq> []"
  then have "(length xs - 1) div 2 = length xs div 2 - 1"
    by (intro even_lower_middle_index) simp_all
  then show "Median xs = sort xs ! (length xs div 2 - 1)"
    by (simp only: Median_lower_middle)
next
  assume "0 < N \<and> length (thresholds F) = N \<and>
     mset (map (\<lambda>row. row ! 0) D) = mset [-1, 0, 2, 3]"
  then show "thresholds (ComputeHammingEmbedding N F D) ! 0 = 0"
    by (intro ComputeHammingEmbedding_four_values) simp_all
qed

theorem Median_even_lower_middle_witness:
  "even (length six_values) \<and> six_values \<noteq> [] \<and> Median six_values = 0 \<and>
   sort six_values = [-5, -1, 0, 2, 3, 10] \<and>
   (0::nat) < 8 \<and> length (thresholds file_thresholds) = 8 \<and>
   mset (map (\<lambda>row. row ! 0) four_rows) = mset [-1, 0, 2, 3] \<and>
   thresholds file_thresholds ! 0 = 2 \<and>
   thresholds (ComputeHammingEmbedding 8 file_thresholds four_rows) ! 0 = 0"
proof -
  note T = Median_even_lower_middle [where xs = six_values and N = 8 and F = file_thresholds
      and D = four_rows]
  have s: "sort six_values = [-5, -1, 0, 2, 3, 10]" by (simp add: six_values_def)
  have a: "even (length six_values) \<and> six_values \<noteq> []" by (simp add: six_values_def)
  have "Median six_values = sort six_values ! (length six_values div 2 - 1)"
    by (rule T [THEN conjunct1, THEN mp, OF a])
  then have m: "Median six_values = 0" unfolding s by (simp add: six_values_def)
  have b: "(0::nat) < 8 \<and> length (thresholds file_thresholds) = 8 \<and>
     mset (map (\<lambda>row. row ! 0) four_rows) = mset [-1, 0, 2, 3]"
    by (simp add: file_thresholds_def four_rows_def)
  have t: "thresholds (ComputeHammingEmbedding 8 file_thresholds four_rows) ! 0 = 0"
    by (rule T [THEN conjunct2, THEN mp, OF b])
  have old: "thresholds file_thresholds ! 0 = 2" by (simp add: file_thresholds_def)
  from a m s b old t show ?thesis by blast
qed

subsection \<open>Self-similarities\<close>

lemma ComputeImageSelfSimilarities_loop_in_range:
  assumes "\<forall>e\<in>set es. 0 \<le> image_id e \<and> nat (image_id e) < length out"
  shows "\<exists>out'. ComputeImageSelfSimilarities_loop sq es out = Inr out' \<and>
           length out' = length out \<and>
           (\<forall>i<length out. out' ! i =
              ((\<lambda>x. x + sq) ^^ length (entries_of_image es (int i))) (out ! i))"
  using assms
proof (induction es arbitrary: out)
  case Nil
  then show ?case by (simp add: entries_of_image_def)
next
  case (Cons e es)
  let ?k = "nat (image_id e)"
  let ?out1 = "out[?k := out ! ?k + sq]"
  from Cons.prems have k: "0 \<le> image_id e" "?k < length out" by simp_all
  from Cons.prems have "\<forall>e\<in>set es. 0 \<le> image_id e \<and> nat (image_id e) < length ?out1"
    by simp
  from Cons.IH [OF this] obtain out' where
    r: "ComputeImageSelfSimilarities_loop sq es ?out1 = Inr out'"
    and l: "length out' = length out"
    and v: "\<forall>i<length out. out' ! i =
              ((\<lambda>x. x + sq) ^^ length (entries_of_image es (int i))) (?out1 ! i)"
    by auto
  have "out' ! i = ((\<lambda>x. x + sq) ^^ length (entries_of_image (e # es) (int i))) (out ! i)"
    if i: "i < length out" for i
  proof (cases "i = ?k")
    case True
    let ?n = "length (entries_of_image es (int i))"
    from True k have ie: "image_id e = int i" by simp
    have eoi: "entries_of_image (e # es) (int i) = e # entries_of_image es (int i)"
      using ie by (simp add: entries_of_image_def)
    have "?out1 ! i = out ! i + sq" using True i by simp
    with v i have "out' ! i = ((\<lambda>x. x + sq) ^^ ?n) (out ! i + sq)" by simp
    also have "\<dots> = ((\<lambda>x. x + sq) ^^ Suc ?n) (out ! i)"
      by (subst funpow_Suc_right) simp
    finally show ?thesis by (simp only: eoi length_Cons)
  next
    case False
    with k have "image_id e \<noteq> int i" by auto
    then have "entries_of_image (e # es) (int i) = entries_of_image es (int i)"
      by (simp add: entries_of_image_def)
    with v i False show ?thesis by simp
  qed
  with r l k show ?case by simp
qed

lemma ComputeImageSelfSimilarities_loop_out_of_range:
  assumes "\<exists>e\<in>set es. image_id e < 0 \<or> length out \<le> nat (image_id e)"
  shows "\<exists>out'. ComputeImageSelfSimilarities_loop sq es out = Inl (OutOfRange, out') \<and>
           length out' = length out"
  using assms
proof (induction es arbitrary: out)
  case Nil
  then show ?case by simp
next
  case (Cons e es)
  show ?case
  proof (cases "0 \<le> image_id e \<and> nat (image_id e) < length out")
    case True
    let ?out1 = "out[nat (image_id e) := out ! nat (image_id e) + sq]"
    from True Cons.prems
    have "\<exists>e\<in>set es. image_id e < 0 \<or> length ?out1 \<le> nat (image_id e)" by auto
    from Cons.IH [OF this] True show ?thesis by simp
  next
    case False
    then show ?thesis by auto
  qed
qed

text \<open>
  C3, as the code has it. When every \<open>image_id\<close> of the entries indexes the vector,
  \<open>ComputeImageSelfSimilarities\<close> returns normally, the vector keeps its size, and position
  \<open>i\<close> has received the squared weight once per entry of image \<open>i\<close>. When some \<open>image_id\<close> is
  negative or not below the size, the function leaves with \<open>std::out_of_range\<close>: the access
  is checked.
\<close>

theorem ComputeImageSelfSimilarities_checked:
  fixes ops :: "('f::times, 'd::plus) arith"
  shows
  "((\<forall>e\<in>set (entries F). 0 \<le> image_id e \<and> nat (image_id e) < length out) \<longrightarrow>
      (\<exists>out'. ComputeImageSelfSimilarities ops F out = Inr out' \<and> length out' = length out \<and>
         (\<forall>i<length out. out' ! i =
            ((\<lambda>x. x + d_of_f ops (idf_weight F * idf_weight F))
               ^^ length (entries_of_image (entries F) (int i))) (out ! i)))) \<and>
   ((\<exists>e\<in>set (entries F). image_id e < 0 \<or> length out \<le> nat (image_id e)) \<longrightarrow>
      (\<exists>out'. ComputeImageSelfSimilarities ops F out = Inl (OutOfRange, out') \<and>
         length out' = length out))"
  using ComputeImageSelfSimilarities_loop_in_range
          [of "entries F" out "d_of_f ops (idf_weight F * idf_weight F)"]
        ComputeImageSelfSimilarities_loop_out_of_range
          [of "entries F" out "d_of_f ops (idf_weight F * idf_weight F)"]
  by (simp add: ComputeImageSelfSimilarities_def)

text \<open>
  C3 as stated ("an image_id at or beyond the container's size is not detected") fails: with
  a vector of three values and an entry of image 3, the call throws.
\<close>

theorem ComputeImageSelfSimilarities_range_check_counterexample:
  "ComputeImageSelfSimilarities exact_arith file_two_images [0, 0, 0]
     = Inl (OutOfRange, [0, 4, 0])"
  by (simp add: ComputeImageSelfSimilarities_def file_two_images_def exact_arith_def)

theorem ComputeImageSelfSimilarities_checked_witness:
  "list_all (\<lambda>e. 0 \<le> image_id e \<and> nat (image_id e) < length [0, 0, 0, 0 :: real])
     (entries file_two_images) \<and>
   (\<exists>out'. ComputeImageSelfSimilarities exact_arith file_two_images [0, 0, 0, 0] = Inr out' \<and>
      length out' = length [0, 0, 0, 0 :: real] \<and>
      (\<forall>i<length [0, 0, 0, 0 :: real]. out' ! i =
         ((\<lambda>x. x + d_of_f exact_arith (idf_weight file_two_images * idf_weight file_two_images))
            ^^ length (entries_of_image (entries file_two_images) (int i)))
           ([0, 0, 0, 0] ! i))) \<and>
   ComputeImageSelfSimilarities exact_arith file_two_images [0, 0, 0, 0] = Inr [0, 4, 0, 8] \<and>
   (\<exists>e\<in>set (entries file_two_images).
      image_id e < 0 \<or> length [0, 0, 0 :: real] \<le> nat (image_id e)) \<and>
   (\<exists>out'. ComputeImageSelfSimilarities exact_arith file_two_images [0, 0, 0]
             = Inl (OutOfRange, out') \<and> length out' = length [0, 0, 0 :: real])"
proof -
  note T = ComputeImageSelfSimilarities_checked [where F = file_two_images and ops = exact_arith]
  have a: "\<forall>e\<in>set (entries file_two_images).
      0 \<le> image_id e \<and> nat (image_id e) < length [0, 0, 0, 0 :: real]"
    by (simp add: file_two_images_def)
  then have a': "list_all (\<lambda>e. 0 \<le> image_id e \<and> nat (image_id e) < length [0, 0, 0, 0 :: real])
     (entries file_two_images)"
    by (simp only: list_all_iff)
  have b: "\<exists>e\<in>set (entries file_two_images).
      image_id e < 0 \<or> length [0, 0, 0 :: real] \<le> nat (image_id e)"
    by (simp add: file_two_images_def)
  have val: "ComputeImageSelfSimilarities exact_arith file_two_images [0, 0, 0, 0]
      = Inr [0, 4, 0, 8]"
    by (simp add: ComputeImageSelfSimilarities_def file_two_images_def exact_arith_def)
  show ?thesis
    by (intro conjI a' b val T [of "[0, 0, 0, 0]", THEN conjunct1, THEN mp, OF a]
        T [of "[0, 0, 0]", THEN conjunct2, THEN mp, OF b])
qed

subsection \<open>Writing and reading back\<close>

lemma stream_read_append: "length a = n \<Longrightarrow> stream_read n (a @ rest) = Some (a, rest)"
  by (simp add: stream_read_def)

lemma length_word32_bytes: "length (word32_bytes w) = 4"
  by (simp add: word32_bytes_def)

lemma bytes_word32_bytes: "bytes_word32 (word32_bytes w) = w"
proof (rule bit_word_eqI)
  fix n assume "n < LENGTH(32)"
  then have n: "n < 32" by simp
  consider "n < 8" | "8 \<le> n" "n < 16" | "16 \<le> n" "n < 24" | "24 \<le> n" "n < 32"
    using n by linarith
  then show "bit (bytes_word32 (word32_bytes w)) n \<longleftrightarrow> bit w n"
  proof cases
    case 1
    then show ?thesis by (simp add: bytes_word32_def word32_bytes_def bit_simps)
  next
    case 2
    then show ?thesis by (auto simp: bytes_word32_def word32_bytes_def bit_simps)
  next
    case 3
    then show ?thesis by (auto simp: bytes_word32_def word32_bytes_def bit_simps)
  next
    case 4
    then show ?thesis by (auto simp: bytes_word32_def word32_bytes_def bit_simps)
  qed
qed

lemma read_write_float:
  assumes "\<forall>x. bits_float rep (float_bits rep x) = x"
  shows "read_float rep (write_float rep x @ rest) = Some (x, rest)"
  using assms
  by (simp add: read_float_def write_float_def stream_read_append length_word32_bytes
      bytes_word32_bytes)

lemma read_thresholds_written:
  assumes "\<forall>x. bits_float rep (float_bits rep x) = x"
  shows "read_thresholds rep ixs ths (concat (map (\<lambda>i. write_float rep (f i)) ixs) @ rest)
         = Some (foldl (\<lambda>ths i. ths[i := f i]) ths ixs, rest)"
  by (induction ixs arbitrary: ths) (simp_all add: read_write_float [OF assms])

lemma bits_of_byte_of_bits: "length bs = 8 \<Longrightarrow> bits_of_byte (byte_of_bits bs) = bs"
  by (rule nth_equalityI) (simp_all add: bits_of_byte_def byte_of_bits_def bit_simps)

lemma concat_chunks:
  "8 * m \<le> length d \<Longrightarrow> concat (map (\<lambda>k. take 8 (drop (8 * k) d)) [0..<m]) = take (8 * m) d"
proof (induction m)
  case 0
  then show ?case by simp
next
  case (Suc m)
  have "take (8 * m) d @ take 8 (drop (8 * m) d) = take (8 * m + 8) d"
    by (simp add: take_add)
  with Suc show ?case by (simp add: add.commute)
qed

lemma signature_round_trip:
  assumes "length d = N" and "8 dvd N"
  shows "concat (map (\<lambda>k. bits_of_byte (byte_of_bits (take 8 (drop (8 * k) d))))
           [0..<N div 8]) = d"
proof -
  have chunk: "bits_of_byte (byte_of_bits (take 8 (drop (8 * k) d))) = take 8 (drop (8 * k) d)"
    if "k \<in> set [0..<N div 8]" for k
  proof -
    from that have "k < N div 8" by simp
    then have "8 * k + 8 \<le> N" using assms(2) by (auto elim!: dvdE)
    then show ?thesis using assms(1) by (intro bits_of_byte_of_bits) simp
  qed
  have m: "map (\<lambda>k. bits_of_byte (byte_of_bits (take 8 (drop (8 * k) d)))) [0..<N div 8]
        = map (\<lambda>k. take 8 (drop (8 * k) d)) [0..<N div 8]"
    by (rule map_cong [OF refl]) (rule chunk)
  have whole: "8 * (N div 8) = N" using assms(2) by simp
  have "concat (map (\<lambda>k. bits_of_byte (byte_of_bits (take 8 (drop (8 * k) d)))) [0..<N div 8])
        = concat (map (\<lambda>k. take 8 (drop (8 * k) d)) [0..<N div 8])"
    by (simp only: m)
  also have "\<dots> = take (8 * (N div 8)) d"
    by (rule concat_chunks) (simp add: whole assms(1))
  also have "\<dots> = d" by (simp add: whole assms(1))
  finally show ?thesis .
qed

lemma sint_image_id: "- (2 ^ 31) \<le> i \<Longrightarrow> i < 2 ^ 31 \<Longrightarrow> sint (word_of_int i :: 32 word) = i"
  by (simp add: signed_of_int signed_take_bit_int_eq_self)

lemma InvertedFileEntry_round_trip:
  assumes "entry_fits N e" and "8 dvd N"
  shows "InvertedFileEntry_Read N (InvertedFileEntry_Write N e @ rest) = Some (e, rest)"
  using assms
  by (simp add: InvertedFileEntry_Read_def InvertedFileEntry_Write_def stream_read_append
      length_word32_bytes bytes_word32_bytes signature_round_trip sint_image_id entry_fits_def
      o_def)

lemma read_entries_written:
  assumes "\<forall>e\<in>set es. entry_fits N e" and "8 dvd N"
  shows "read_entries N (length es) (concat (map (InvertedFileEntry_Write N) es) @ rest)
         = Some (es, rest)"
  using assms(1)
  by (induction es) (simp_all add: InvertedFileEntry_round_trip [OF _ assms(2)])


lemma unat_num_entries: "n < 2 ^ 32 \<Longrightarrow> unat (word_of_nat n :: 32 word) = n"
  by (simp add: unat_of_nat)

lemma map_nth_upt: "map (\<lambda>i. f (xs ! i)) [0..<length xs] = map f xs"
  by (rule nth_equalityI) simp_all

lemma Write_open:
  assumes "length (entries F) < 2 ^ 32"
  shows "Write N rep F \<lparr>is_open = True, buffer = []\<rparr> =
     Inr \<lparr>is_open = True,
          buffer = [status F] @ (write_float rep (idf_weight F) @
            (concat (map (\<lambda>i. write_float rep (thresholds F ! i)) [0..<N]) @
            (word32_bytes (word_of_nat (length (entries F))) @
            (concat (map (InvertedFileEntry_Write N) (entries F)) @ []))))\<rparr>"
  using map_nth_upt [of "InvertedFileEntry_Write N" "entries F"]
  by (simp add: Write_def Let_def unat_num_entries [OF assms])

lemma Read_written:
  fixes F :: "'f InvertedFile"
  assumes rep: "\<forall>x. bits_float rep (float_bits rep x) = x"
    and N: "8 dvd N"
    and ths: "length (thresholds F) = N"
    and es: "\<forall>e\<in>set (entries F). entry_fits N e"
    and n: "length (entries F) < 2 ^ 32"
    and ths0: "length (thresholds F0) = N"
  shows "Read N rep F0 \<lparr>is_open = True,
          buffer = [status F] @ (write_float rep (idf_weight F) @
            (concat (map (\<lambda>i. write_float rep (thresholds F ! i)) [0..<N]) @
            (word32_bytes (word_of_nat (length (entries F))) @
            (concat (map (InvertedFileEntry_Write N) (entries F)) @ rest))))\<rparr>
     = Inr (F0\<lparr>status := status F, idf_weight := idf_weight F, thresholds := thresholds F,
                entries := entries F\<rparr>, \<lparr>is_open = True, buffer = rest\<rparr>)"
proof -
  have s1: "stream_read 1 ([status F] @ bs) = Some ([status F], bs)" for bs
    by (rule stream_read_append) simp
  have s3: "foldl (\<lambda>ths i. ths[i := thresholds F ! i]) (thresholds F0) [0..<N] = thresholds F"
    using foldl_list_update_upt [OF ths0, of "\<lambda>i. thresholds F ! i"] ths
      map_nth [of "thresholds F"]
    by simp
  have s4: "stream_read 4 (word32_bytes w @ bs) = Some (word32_bytes w, bs)" for w bs
    by (rule stream_read_append) (rule length_word32_bytes)
  show ?thesis
    unfolding Read_def
    by (simp only: s1 read_write_float [OF rep] read_thresholds_written [OF rep] s3 s4
        bytes_word32_bytes unat_num_entries [OF n] read_entries_written [OF es N]
        fstream.simps option.case prod.case if_False not_True_eq_False nth_Cons_0
        fstream.update_convs)
qed

text \<open>
  C8, as the code has it. A file with fewer than \<open>2\<^sup>3\<^sup>2\<close> entries, written to an empty stream
  and read back into a fresh object, comes back whole: status, weight, the \<open>N\<close> thresholds
  and the entries with their order, and the stream is read to its end. The other hypotheses
  are what the C++ types guarantee: a \<open>float\<close> is determined by its bits, \<open>N\<close> is a multiple
  of eight, there are \<open>N\<close> thresholds, a signature has \<open>N\<close> bits and an \<open>image_id\<close> is a 32-bit
  \<open>int\<close>.
\<close>

theorem Write_Read_round_trip:
  fixes F :: "('f::zero) InvertedFile"
  assumes "\<forall>x. bits_float rep (float_bits rep x) = x"
    and "8 dvd N"
    and "length (thresholds F) = N"
    and "\<forall>e\<in>set (entries F). entry_fits N e"
    and "length (entries F) < 2 ^ 32"
  shows "write_then_read N rep F = Inr (F, \<lparr>is_open = True, buffer = []\<rparr>)"
proof -
  have "length (thresholds (InvertedFile_new N :: 'f InvertedFile)) = N"
    by (simp add: InvertedFile_new_def)
  from Read_written [OF assms this, of "[]"] show ?thesis
    unfolding write_then_read_def Write_open [OF assms(5)]
    by (simp add: InvertedFile_new_def)
qed

theorem Write_Read_round_trip_witness:
  "(\<forall>x. bits_float bits_repr (float_bits bits_repr x) = x) \<and> (8::nat) dvd 8 \<and>
   length (thresholds stored_file) = 8 \<and> list_all (entry_fits 8) (entries stored_file) \<and>
   length (entries stored_file) < 2 ^ 32 \<and>
   write_then_read 8 bits_repr stored_file = Inr (stored_file, \<lparr>is_open = True, buffer = []\<rparr>)"
proof -
  have a: "\<forall>x. bits_float bits_repr (float_bits bits_repr x) = x" by (simp add: bits_repr_def)
  have b: "(8::nat) dvd 8" by simp
  have c: "length (thresholds stored_file) = 8" by (simp add: stored_file_def)
  have d: "\<forall>e\<in>set (entries stored_file). entry_fits 8 e"
    by (simp add: stored_file_def entry_fits_def ones8_def)
  from d have d': "list_all (entry_fits 8) (entries stored_file)"
    by (simp only: list_all_iff)
  have e: "length (entries stored_file) < 2 ^ 32" by (simp add: stored_file_def)
  show ?thesis
    by (intro conjI a b c d' e Write_Read_round_trip [OF a b c d e])
qed

lemma fresh8:
  "(InvertedFile_new 8 :: (32 word) InvertedFile) =
     \<lparr>status = 0, idf_weight = 0, entries = [], thresholds = [0, 0, 0, 0, 0, 0, 0, 0]\<rparr>"
  by (simp add: InvertedFile_new_def UNUSABLE_def numeral_eq_Suc)

lemma upt8_Suc:
  "[0..<8] = [0, Suc 0, Suc (Suc 0), Suc (Suc (Suc 0)), Suc (Suc (Suc (Suc 0))),
     Suc (Suc (Suc (Suc (Suc 0)))), Suc (Suc (Suc (Suc (Suc (Suc 0))))),
     Suc (Suc (Suc (Suc (Suc (Suc (Suc 0))))))]"
  by (simp add: numeral_eq_Suc upt_rec)

text \<open>
  C8 as stated ("for every inverted file") fails where the count wraps: of \<open>2\<^sup>3\<^sup>2\<close> entries,
  \<open>Write\<close> records the count \<open>0\<close> and writes none, and \<open>Read\<close> returns a file without entries.
\<close>

theorem Write_Read_truncates_count_counterexample:
  "write_then_read 8 bits_repr huge_file
     = Inr (huge_file\<lparr>entries := []\<rparr>, \<lparr>is_open = True, buffer = []\<rparr>) \<and>
   entries huge_file \<noteq> []"
proof -
  have n: "(word_of_nat (length (entries huge_file)) :: 32 word) = 0"
    by (simp add: huge_file_def)
  have w: "Write 8 bits_repr huge_file \<lparr>is_open = True, buffer = []\<rparr> =
      Inr \<lparr>is_open = True,
           buffer = [3, 0, 0, 0, 0,  0, 0, 0, 0,  0, 0, 0, 0,  0, 0, 0, 0,  0, 0, 0, 0,
                     0, 0, 0, 0,  0, 0, 0, 0,  0, 0, 0, 0,  0, 0, 0, 0,  0, 0, 0, 0]\<rparr>"
    by (simp add: Write_def n) 
       (simp add: huge_file_def USABLE_def write_float_def bits_repr_def word32_bytes_def upt8)
  have r: "Read 8 bits_repr (InvertedFile_new 8) \<lparr>is_open = True,
           buffer = [3, 0, 0, 0, 0,  0, 0, 0, 0,  0, 0, 0, 0,  0, 0, 0, 0,  0, 0, 0, 0,
                     0, 0, 0, 0,  0, 0, 0, 0,  0, 0, 0, 0,  0, 0, 0, 0,  0, 0, 0, 0]\<rparr>
      = Inr (huge_file\<lparr>entries := []\<rparr>, \<lparr>is_open = True, buffer = []\<rparr>)"
    unfolding fresh8 upt8_Suc Read_def
    by (simp add: stream_read_def read_float_def bits_repr_def bytes_word32_def
        huge_file_def USABLE_def)
  have "entries huge_file \<noteq> []" by (simp add: huge_file_def)
  with w r show ?thesis by (simp add: write_then_read_def)
qed


end
